theory Spec2Isabelle
  imports Complex_Main
begin

section \<open>JavaScript numbers\<close>

text \<open>
  The engine computes on JavaScript numbers. A number is embedded as a finite value or one
  of the three special values \<open>NaN\<close>, \<open>Infinity\<close> and \<open>-Infinity\<close>, with the special-value
  rules of the language written out. Amounts in cents carry an \<open>int\<close>, amounts in dollars
  and rates carry a \<open>rat\<close>. Integer cents are exact in the source below \<open>2 ^ 53\<close>, a dollar
  amount is taken as the decimal it is written as, and \<open>toFixed\<close> and \<open>String\<close> print plain
  digits below \<open>10 ^ 21\<close>. Where an amount meets the rate, in \<open>mulRate\<close> and
  \<open>divByOnePlus\<close>, the rounding of double arithmetic decides the cent, and the sum, the
  product and the quotient are rounded to the nearest double there (section
  \<open>Double precision\<close>). The negative zero is identified with zero, from which the engine
  cannot tell it apart.
\<close>

datatype 'a number = Fin 'a | NaN | PInf | NInf

type_synonym cents = "int number"
type_synonym dollars = "rat number"

fun num_neg :: "'a::linordered_idom number \<Rightarrow> 'a number" where
  "num_neg (Fin a) = Fin (- a)"
| "num_neg NaN = NaN"
| "num_neg PInf = NInf"
| "num_neg NInf = PInf"

fun num_add :: "'a::linordered_idom number \<Rightarrow> 'a number \<Rightarrow> 'a number" where
  "num_add (Fin a) (Fin b) = Fin (a + b)"
| "num_add NaN _ = NaN"
| "num_add _ NaN = NaN"
| "num_add PInf NInf = NaN"
| "num_add NInf PInf = NaN"
| "num_add PInf _ = PInf"
| "num_add _ PInf = PInf"
| "num_add NInf _ = NInf"
| "num_add _ NInf = NInf"

definition num_sub :: "'a::linordered_idom number \<Rightarrow> 'a number \<Rightarrow> 'a number" where
  "num_sub x y = num_add x (num_neg y)"

text \<open>The sign of a number, for products and quotients with an infinite operand.\<close>

fun num_sgn :: "'a::linordered_idom number \<Rightarrow> int" where
  "num_sgn (Fin a) = (if a < 0 then - 1 else if a = 0 then 0 else 1)"
| "num_sgn NaN = 0"
| "num_sgn PInf = 1"
| "num_sgn NInf = - 1"

definition inf_of_sgn :: "int \<Rightarrow> 'a number" where
  "inf_of_sgn s = (if s = 0 then NaN else if 0 < s then PInf else NInf)"

fun num_mul :: "'a::linordered_idom number \<Rightarrow> 'a number \<Rightarrow> 'a number" where
  "num_mul (Fin a) (Fin b) = Fin (a * b)"
| "num_mul NaN _ = NaN"
| "num_mul _ NaN = NaN"
| "num_mul x y = inf_of_sgn (num_sgn x * num_sgn y)"

fun num_div :: "rat number \<Rightarrow> rat number \<Rightarrow> rat number" where
  "num_div (Fin a) (Fin b) = (if b = 0 then inf_of_sgn (num_sgn (Fin a)) else Fin (a / b))"
| "num_div NaN _ = NaN"
| "num_div _ NaN = NaN"
| "num_div (Fin a) _ = Fin 0"
| "num_div x (Fin b) = inf_of_sgn (num_sgn x * (if b < 0 then - 1 else 1))"
| "num_div _ _ = NaN"

text \<open>The remainder \<open>%\<close> takes the sign of the dividend.\<close>

fun num_rem :: "int number \<Rightarrow> int number \<Rightarrow> int number" where
  "num_rem (Fin a) (Fin b) =
     (if b = 0 then NaN else Fin ((if a < 0 then - 1 else 1) * (\<bar>a\<bar> mod \<bar>b\<bar>)))"
| "num_rem NaN _ = NaN"
| "num_rem _ NaN = NaN"
| "num_rem (Fin a) _ = Fin a"
| "num_rem _ _ = NaN"

fun num_lt :: "'a::linordered_idom number \<Rightarrow> 'a number \<Rightarrow> bool" where
  "num_lt (Fin a) (Fin b) = (a < b)"
| "num_lt NaN _ = False"
| "num_lt _ NaN = False"
| "num_lt NInf NInf = False"
| "num_lt NInf _ = True"
| "num_lt _ NInf = False"
| "num_lt PInf _ = False"
| "num_lt _ PInf = True"

fun num_le :: "'a::linordered_idom number \<Rightarrow> 'a number \<Rightarrow> bool" where
  "num_le (Fin a) (Fin b) = (a \<le> b)"
| "num_le NaN _ = False"
| "num_le _ NaN = False"
| "num_le NInf _ = True"
| "num_le _ PInf = True"
| "num_le _ _ = False"

text \<open>\<open>a !== b\<close> on numbers: \<open>NaN\<close> differs from every number, itself included.\<close>

definition strict_neq :: "'a number \<Rightarrow> 'a number \<Rightarrow> bool" where
  "strict_neq a b = (a = NaN \<or> b = NaN \<or> a \<noteq> b)"

text \<open>A number in a condition: zero and \<open>NaN\<close> count as false.\<close>

fun truthy :: "'a::linordered_idom number \<Rightarrow> bool" where
  "truthy (Fin a) = (a \<noteq> 0)"
| "truthy NaN = False"
| "truthy _ = True"

fun Math_abs :: "'a::linordered_idom number \<Rightarrow> 'a number" where
  "Math_abs (Fin a) = Fin \<bar>a\<bar>"
| "Math_abs NaN = NaN"
| "Math_abs _ = PInf"

text \<open>\<open>Math.round\<close> rounds to the nearest integer, a half towards \<open>+Infinity\<close>.\<close>

fun Math_round :: "rat number \<Rightarrow> int number" where
  "Math_round (Fin q) = Fin \<lfloor>q + 1 / 2\<rfloor>"
| "Math_round NaN = NaN"
| "Math_round PInf = PInf"
| "Math_round NInf = NInf"

fun Math_floor :: "rat number \<Rightarrow> int number" where
  "Math_floor (Fin q) = Fin \<lfloor>q\<rfloor>"
| "Math_floor NaN = NaN"
| "Math_floor PInf = PInf"
| "Math_floor NInf = NInf"

text \<open>An integral number read where a fractional one is computed.\<close>

fun to_rat :: "int number \<Rightarrow> rat number" where
  "to_rat (Fin a) = Fin (of_int a)"
| "to_rat NaN = NaN"
| "to_rat PInf = PInf"
| "to_rat NInf = NInf"

section \<open>Double precision\<close>

text \<open>
  A number of the source is a double (IEEE 754 binary64): a significand of 53 bits and an
  exponent from -1022 to 1023. A decimal literal and every arithmetic operation give the
  double nearest to the exact value, a tie going to the even significand, and an infinity
  beyond the largest double. \<open>double q\<close> is that rounding of the exact value \<open>q\<close>.
\<close>

definition pow2 :: "int \<Rightarrow> rat" where
  "pow2 e = (if 0 \<le> e then 2 ^ nat e else 1 / 2 ^ nat (- e))"

text \<open>How often a value from 1 on is halved before it is below 2.\<close>

function halvings :: "rat \<Rightarrow> nat" where
  "halvings q = (if 2 \<le> q then Suc (halvings (q / 2)) else 0)"
  by pat_completeness auto
termination
  by (relation "measure (\<lambda>q. nat \<lfloor>q\<rfloor>)") (auto simp: nat_less_iff floor_less_iff, linarith)

text \<open>How often a positive value below 1 is doubled before it reaches 1.\<close>

function doublings :: "rat \<Rightarrow> nat" where
  "doublings q = (if 0 < q \<and> q < 1 then Suc (doublings (q * 2)) else 0)"
  by pat_completeness auto
termination
proof (relation "measure (\<lambda>q. nat \<lceil>1 / q\<rceil>)")
  fix q :: rat
  assume "0 < q \<and> q < 1"
  then have q: "0 < q" "q < 1" by simp_all
  then have "1 < 1 / q" by simp
  then have c: "2 \<le> \<lceil>1 / q\<rceil>" by linarith
  have "1 / (q * 2) = (1 / q) / 2" by simp
  also have "\<dots> \<le> of_int \<lceil>1 / q\<rceil> / 2" by (simp add: divide_right_mono)
  finally have "\<lceil>1 / (q * 2)\<rceil> \<le> \<lceil>(of_int \<lceil>1 / q\<rceil> :: rat) / 2\<rceil>" by (rule ceiling_mono)
  also have "\<dots> < \<lceil>1 / q\<rceil>" using c by linarith
  finally show "(q * 2, q) \<in> measure (\<lambda>q. nat \<lceil>1 / q\<rceil>)" using c q by simp
qed simp

declare halvings.simps [simp del] doublings.simps [simp del]

text \<open>The binary exponent of a value other than zero: \<open>2 ^ e \<le> \<bar>q\<bar> < 2 ^ (e + 1)\<close>.\<close>

definition exponent_of :: "rat \<Rightarrow> int" where
  "exponent_of q = (if 1 \<le> \<bar>q\<bar> then int (halvings \<bar>q\<bar>) else - int (doublings \<bar>q\<bar>))"

text \<open>The nearest integer, a tie going to the even one.\<close>

definition round_even :: "rat \<Rightarrow> int" where
  "round_even m =
     (let f = \<lfloor>m\<rfloor>; d = m - of_int f
      in if d < 1 / 2 then f else if 1 / 2 < d then f + 1 else if even f then f else f + 1)"

text \<open>
  The value is rounded to a multiple of the unit in the last place of its binade, which is
  \<open>2 ^ (e - 52)\<close>; below the smallest normal double the unit is that of the exponent -1022
  (the subnormal doubles), and a rounded value of \<open>2 ^ 1024\<close> or more is an infinity.
\<close>

definition double :: "rat \<Rightarrow> rat number" where
  "double q =
     (let e = max (exponent_of q) (- 1022);
          ulp = pow2 (e - 52);
          v = of_int (round_even (q / ulp)) * ulp
      in if pow2 1024 \<le> v then PInf else if v \<le> - pow2 1024 then NInf else Fin v)"

text \<open>The result of an operation as the double it is stored as.\<close>

fun to_double :: "rat number \<Rightarrow> rat number" where
  "to_double (Fin q) = double q"
| "to_double NaN = NaN"
| "to_double PInf = PInf"
| "to_double NInf = NInf"

section \<open>Strings of digits\<close>

definition digit_chars :: string where
  "digit_chars = ''0123456789''"

definition is_digit :: "char \<Rightarrow> bool" where
  "is_digit c = (c \<in> set digit_chars)"

definition digit_char :: "nat \<Rightarrow> char" where
  "digit_char d = digit_chars ! d"

text \<open>The value of a digit is its position among the digit characters.\<close>

definition digit_val :: "char \<Rightarrow> nat" where
  "digit_val c = length (takeWhile (\<lambda>d. d \<noteq> c) digit_chars)"

text \<open>The decimal digits of an integer that is not negative, without leading zeros.\<close>

function digits :: "int \<Rightarrow> string" where
  "digits n =
     (if n < 10 then [digit_char (nat n)]
      else digits (n div 10) @ [digit_char (nat (n mod 10))])"
  by pat_completeness auto
termination
  by (relation "measure nat") auto

declare digits.simps [simp del]

definition parse_digits :: "string \<Rightarrow> int" where
  "parse_digits s = foldl (\<lambda>a c. 10 * a + int (digit_val c)) 0 s"

text \<open>
  \<open>String(n)\<close> and the \<open>${n}\<close> of a template, for an integral number.
\<close>

fun String_of :: "int number \<Rightarrow> string" where
  "String_of (Fin n) = (if n < 0 then ''-'' else []) @ digits \<bar>n\<bar>"
| "String_of NaN = ''NaN''"
| "String_of PInf = ''Infinity''"
| "String_of NInf = ''-Infinity''"

text \<open>
  \<open>parseInt(s, 10)\<close>: an optional sign, then the longest run of digits; \<open>NaN\<close> when there
  is no digit. (The white space that \<open>parseInt\<close> skips first never reaches it here: the
  callers pass digits and minus signs only.)
\<close>

definition parseInt :: "string \<Rightarrow> int number" where
  "parseInt s =
     (let neg = (s \<noteq> [] \<and> hd s = CHR ''-'');
          body = (if s \<noteq> [] \<and> (hd s = CHR ''-'' \<or> hd s = CHR ''+'') then tl s else s);
          ds = takeWhile is_digit body
      in if ds = [] then NaN
         else Fin ((if neg then - 1 else 1) * parse_digits ds))"

text \<open>\<open>s.padEnd(2, "0")\<close>, \<open>s.padStart(2, "0")\<close> and \<open>s.slice(0, 2)\<close>.\<close>

definition padEnd2 :: "string \<Rightarrow> string" where
  "padEnd2 s = s @ replicate (2 - length s) CHR ''0''"

definition padStart2 :: "string \<Rightarrow> string" where
  "padStart2 s = replicate (2 - length s) CHR ''0'' @ s"

definition slice02 :: "string \<Rightarrow> string" where
  "slice02 s = take 2 s"

text \<open>\<open>s.split(".")\<close>: the pieces between the dots, at least one piece.\<close>

fun split_dot :: "string \<Rightarrow> string list" where
  "split_dot [] = [ [] ]"
| "split_dot (c # cs) =
     (if c = CHR ''.'' then [] # split_dot cs
      else (c # hd (split_dot cs)) # tl (split_dot cs))"

text \<open>\<open>s.replace(/[^0-9.-]/g, "")\<close>: keep digits, dots and minus signs.\<close>

definition strip_decoration :: "string \<Rightarrow> string" where
  "strip_decoration s = filter (\<lambda>c. is_digit c \<or> c = CHR ''.'' \<or> c = CHR ''-'') s"

text \<open>
  \<open>v.toFixed(2)\<close>: the number rounded to two fractional digits (of two nearest candidates
  the larger one), printed with the sign of the number.
\<close>

fun toFixed2 :: "rat number \<Rightarrow> string" where
  "toFixed2 (Fin q) =
     (let n = \<lfloor>\<bar>q\<bar> * 100 + 1 / 2\<rfloor>
      in (if q < 0 then ''-'' else []) @ digits (n div 100) @ ''.''
           @ padStart2 (digits (n mod 100)))"
| "toFixed2 NaN = ''NaN''"
| "toFixed2 PInf = ''Infinity''"
| "toFixed2 NInf = ''-Infinity''"

text \<open>
  \<open>Number(s)\<close> for a string: a signed decimal literal with an optional fraction, or a
  signed \<open>Infinity\<close>; the empty string is zero and anything else is \<open>NaN\<close>. Exponents,
  radix prefixes and surrounding white space are not covered: the engine applies
  \<open>Number\<close> to the strings of \<open>fromCents\<close> only, which have none.
\<close>

definition Number_of :: "string \<Rightarrow> rat number" where
  "Number_of s =
     (let neg = (s \<noteq> [] \<and> hd s = CHR ''-'');
          body = (if s \<noteq> [] \<and> (hd s = CHR ''-'' \<or> hd s = CHR ''+'') then tl s else s);
          ip = takeWhile is_digit body;
          rest = dropWhile is_digit body;
          fp = tl rest;
          sg = (if neg then - 1 else 1)
      in if s = [] then Fin 0
         else if body = ''Infinity'' then (if neg then NInf else PInf)
         else if rest = [] then (if ip = [] then NaN else Fin (sg * of_int (parse_digits ip)))
         else if hd rest = CHR ''.'' \<and> list_all is_digit fp \<and> (ip \<noteq> [] \<or> fp \<noteq> [])
           then Fin (sg * (of_int (parse_digits ip) + of_int (parse_digits fp) / 10 ^ length fp))
         else NaN)"

section \<open>Currency codec\<close>

text \<open>The argument of \<open>toCents\<close> is a number or a string.\<close>

datatype amount_input = Num dollars | Str string

definition or_zero :: "int number \<Rightarrow> int number" where
  "or_zero x = (if truthy x then x else Fin 0)"

definition toCents :: "amount_input \<Rightarrow> cents" where
  "toCents v =
     (let s = (case v of Num x \<Rightarrow> toFixed2 x | Str t \<Rightarrow> t);
          parts = split_dot (strip_decoration s);
          i = hd parts;
          f = (if 2 \<le> length parts then parts ! 1 else [])
      in num_add (num_mul (parseInt (if i = [] then ''0'' else i)) (Fin 100))
                 (or_zero (parseInt (slice02 (padEnd2 f)))))"

definition fromCents :: "cents \<Rightarrow> string" where
  "fromCents c =
     (if num_lt c (Fin 0) then ''-'' else [])
     @ String_of (Math_floor (num_div (to_rat (Math_abs c)) (Fin 100)))
     @ ''.''
     @ padStart2 (String_of (num_rem (Math_abs c) (Fin 100)))"

text \<open>
  \<open>Math.round(cents * rate)\<close> and \<open>Math.round(cents / (1 + rate))\<close>: the product, the sum
  and the quotient are doubles, and \<open>Math.round\<close> is applied to the double.
\<close>

definition mulRate :: "cents \<Rightarrow> rat number \<Rightarrow> cents" where
  "mulRate c r = Math_round (to_double (num_mul (to_rat c) r))"

definition divByOnePlus :: "cents \<Rightarrow> rat number \<Rightarrow> cents" where
  "divByOnePlus c r =
     Math_round (to_double (num_div (to_rat c) (to_double (num_add (Fin 1) r))))"

text \<open>\<open>sum\<close>, the \<open>reduce\<close> with \<open>+\<close> from zero.\<close>

definition sum_cents :: "cents list \<Rightarrow> cents" where
  "sum_cents xs = foldl num_add (Fin 0) xs"

section \<open>Data model\<close>

text \<open>
  The types of the source. An optional field is an \<open>option\<close>; a field whose name Isabelle
  has taken (\<open>id\<close>, \<open>from\<close>, \<open>to\<close>, \<open>mode\<close>) carries a prefix.
\<close>

record FaRate =
  rate :: "rat number option"

record WrsAccountNumbers =
  indirect_costs :: "string option"

record RatesData =
  fa_rate :: "FaRate option"
  wrs_account_numbers :: "WrsAccountNumbers option"
  mtdc_eligible_accounts :: "string list option"

record BudgetRow =
  account :: string
  description :: string
  current_budget :: dollars
  proposed_budget :: dollars
  encumbrances :: "dollars option"
  change :: "dollars option"

datatype TransferMode = BudgetTotal | DirectToDest

record TransferItem =
  item_id :: string
  item_from :: string
  item_to :: string
  amount_cents :: cents
  item_mode :: TransferMode

text \<open>
  The \<open>id\<close> of a mapping row is drawn from the clock and the random generator; it is
  left out of the embedding.
\<close>

record MappingRow =
  map_from :: string
  map_to :: string
  source_out_cents :: cents
  direct_to_dest_cents :: cents
  fa_added_to_fanda_cents :: cents
  dest_mtdc_eligible :: bool
  map_mode :: TransferMode

text \<open>
  The errors thrown by the engine, named as in the specification; the source
  distinguishes them by their message only. In the order of the constructors:
  \<^item> \<open>Amount must be greater than zero\<close>
  \<^item> \<open>Direct transfers to or from F&A are not allowed.\<close>
  \<^item> \<open>Unknown source account\<close> and the account
  \<^item> \<open>Unknown destination account\<close> and the account
  \<^item> \<open>From and To must differ\<close>
  \<^item> \<open>Transfer would breach encumbrance on\<close> and the account
  \<^item> \<open>Transfer would make\<close> the account \<open>negative\<close>
  \<^item> \<open>Totals do not reconcile after transfer\<close>
\<close>

datatype error =
    InvalidAmount
  | ForbiddenIndirectTransfer
  | UnknownSourceAccount string
  | UnknownDestinationAccount string
  | IdenticalAccounts
  | EncumbranceBreach string
  | NegativeBalance string
  | ReconciliationFailure

section \<open>Eligibility and rate\<close>

text \<open>
  \<open>ratesData?.wrs_account_numbers?.indirect_costs || "58960"\<close>: the designated
  indirect-cost account; a missing policy, a missing field and the empty string all
  give the default.
\<close>

definition fandaAcct :: "RatesData option \<Rightarrow> string" where
  "fandaAcct rates =
     (case rates of None \<Rightarrow> ''58960''
      | Some rd \<Rightarrow>
          (case wrs_account_numbers rd of None \<Rightarrow> ''58960''
           | Some w \<Rightarrow>
               (case indirect_costs w of None \<Rightarrow> ''58960''
                | Some s \<Rightarrow> if s = [] then ''58960'' else s)))"

definition isMtdcEligible :: "string \<Rightarrow> RatesData option \<Rightarrow> bool" where
  "isMtdcEligible acct rates =
     (case rates of None \<Rightarrow> False
      | Some rd \<Rightarrow>
          (let fanda = fandaAcct rates in
           if acct = fanda then False
           else (let elig = (case mtdc_eligible_accounts rd of None \<Rightarrow> [] | Some e \<Rightarrow> e)
                 in acct \<in> set elig)))"

definition faRateForDest :: "string \<Rightarrow> RatesData option \<Rightarrow> rat number" where
  "faRateForDest destAcct rates =
     (case rates of None \<Rightarrow> Fin 0
      | Some rd \<Rightarrow>
          (case fa_rate rd of None \<Rightarrow> Fin 0
           | Some fr \<Rightarrow> (case rate fr of None \<Rightarrow> Fin 0 | Some x \<Rightarrow> x)))"

text \<open>\<open>snapshot.find((r) => r.account === acct)\<close>\<close>

definition find_row :: "string \<Rightarrow> BudgetRow list \<Rightarrow> BudgetRow option" where
  "find_row acct rows = find (\<lambda>r. account r = acct) rows"

definition encumbrancesFor :: "string \<Rightarrow> BudgetRow list \<Rightarrow> dollars" where
  "encumbrancesFor acct snapshot =
     (case find_row acct snapshot of None \<Rightarrow> Fin 0
      | Some row \<Rightarrow> (case encumbrances row of None \<Rightarrow> Fin 0 | Some e \<Rightarrow> e))"

text \<open>\<open>rows.filter((r) => r.account !== "SUMMARY")\<close>\<close>

definition without_summary :: "BudgetRow list \<Rightarrow> BudgetRow list" where
  "without_summary rows = filter (\<lambda>r. account r \<noteq> ''SUMMARY'') rows"

definition baselineSum :: "BudgetRow list \<Rightarrow> cents" where
  "baselineSum rows =
     sum_cents (map (\<lambda>r. toCents (Num (current_budget r))) (without_summary rows))"

section \<open>Transfer impact\<close>

text \<open>
  The object that \<open>computeTransferImpact\<close> returns. In the function, \<open>so\<close>, \<open>dd\<close> and
  \<open>fa\<close> stand for the constants \<open>source_out\<close>, \<open>direct_to_dest\<close> and \<open>fa_added\<close> of
  the source, whose names are the fields here.
\<close>

record Impact =
  source_out :: cents
  direct_to_dest :: cents
  fa_added :: cents
  eligible :: bool

definition computeTransferImpact ::
  "RatesData option \<Rightarrow> string \<Rightarrow> cents \<Rightarrow> TransferMode \<Rightarrow> error + Impact" where
  "computeTransferImpact ratesData toAcct amountCents mode =
     (let elig = isMtdcEligible toAcct ratesData;
          r = (if elig then faRateForDest toAcct ratesData else Fin 0)
      in if num_le amountCents (Fin 0) then Inl InvalidAmount
         else (case mode of
                 BudgetTotal \<Rightarrow>
                   (let so = amountCents;
                        dd = (if truthy r then divByOnePlus amountCents r else amountCents);
                        fa = (if truthy r then num_sub so dd else Fin 0)
                    in Inr \<lparr>source_out = so, direct_to_dest = dd, fa_added = fa, eligible = elig\<rparr>)
               | DirectToDest \<Rightarrow>
                   (let dd = amountCents;
                        fa = (if truthy r then mulRate dd r else Fin 0);
                        so = num_add dd fa
                    in Inr \<lparr>source_out = so, direct_to_dest = dd, fa_added = fa, eligible = elig\<rparr>)))"

section \<open>Ledger\<close>

text \<open>
  \<open>applyOne\<close> works on a copy of the rows and changes that copy in place. A row that the
  source holds by reference (\<open>fromRow\<close>, \<open>toRow\<close>, \<open>fandaRow\<close>) is held here by its
  position in the copy: \<open>rows.find\<close> gives the first row of the account.
\<close>

fun find_pos :: "string \<Rightarrow> BudgetRow list \<Rightarrow> nat option" where
  "find_pos acct [] = None"
| "find_pos acct (r # rs) =
     (if account r = acct then Some 0 else map_option Suc (find_pos acct rs))"

definition newFandaRow :: "string \<Rightarrow> BudgetRow" where
  "newFandaRow acct =
     \<lparr>account = acct, description = ''F&A'', current_budget = Fin 0, proposed_budget = Fin 0,
      encumbrances = Some (Fin 0), change = Some (Fin 0)\<rparr>"

text \<open>
  The working rows: the rows that are not the summary row, and the row of the indirect-cost
  account, pushed at the end when there is none; with the position of that row.
\<close>

definition workingRows :: "string \<Rightarrow> BudgetRow list \<Rightarrow> BudgetRow list \<times> nat" where
  "workingRows fanda baselineRows =
     (let rows = without_summary baselineRows
      in case find_pos fanda rows of
           Some k \<Rightarrow> (rows, k)
         | None \<Rightarrow> (rows @ [newFandaRow fanda], length rows))"

text \<open>\<open>row.proposed_budget = Number(row.proposed_budget) + d\<close> on the row at a position.\<close>

definition credit :: "nat \<Rightarrow> dollars \<Rightarrow> BudgetRow list \<Rightarrow> BudgetRow list" where
  "credit k d rows =
     rows[k := (rows ! k)\<lparr>proposed_budget := num_add (proposed_budget (rows ! k)) d\<rparr>]"

definition debit :: "nat \<Rightarrow> dollars \<Rightarrow> BudgetRow list \<Rightarrow> BudgetRow list" where
  "debit k d rows =
     rows[k := (rows ! k)\<lparr>proposed_budget := num_sub (proposed_budget (rows ! k)) d\<rparr>]"

definition set_change :: "BudgetRow \<Rightarrow> BudgetRow" where
  "set_change r = r\<lparr>change := Some (num_sub (proposed_budget r) (current_budget r))\<rparr>"

definition applyOne ::
  "RatesData option \<Rightarrow> BudgetRow list \<Rightarrow> BudgetRow list \<Rightarrow> string \<Rightarrow> string \<Rightarrow> cents
     \<Rightarrow> TransferMode \<Rightarrow> error + BudgetRow list \<times> MappingRow" where
  "applyOne ratesData baselineRows snapshot fromAcct toAcct amountCents mode =
     (let fanda = fandaAcct ratesData in
      if fromAcct = fanda \<or> toAcct = fanda then Inl ForbiddenIndirectTransfer
      else
        (let (rows, fandaRow) = workingRows fanda baselineRows in
         case find_pos fromAcct rows of
           None \<Rightarrow> Inl (UnknownSourceAccount fromAcct)
         | Some fromRow \<Rightarrow>
         (case find_pos toAcct rows of
           None \<Rightarrow> Inl (UnknownDestinationAccount toAcct)
         | Some toRow \<Rightarrow>
         if fromAcct = toAcct then Inl IdenticalAccounts
         else
         (case computeTransferImpact ratesData toAcct amountCents mode of
           Inl e \<Rightarrow> Inl e
         | Inr imp \<Rightarrow>
         (let enc = encumbrancesFor fromAcct snapshot;
              fromAfter = num_sub (toCents (Num (proposed_budget (rows ! fromRow))))
                                  (source_out imp)
          in if num_lt fromAfter (toCents (Num enc)) then Inl (EncumbranceBreach fromAcct)
             else if num_lt fromAfter (Fin 0) then Inl (NegativeBalance fromAcct)
             else
               (let rows1 = debit fromRow (Number_of (fromCents (source_out imp))) rows;
                    rows2 = credit toRow (Number_of (fromCents (direct_to_dest imp))) rows1;
                    rows3 = credit fandaRow (Number_of (fromCents (fa_added imp))) rows2;
                    rows4 = map set_change rows3;
                    logRow = \<lparr>map_from = fromAcct, map_to = toAcct,
                              source_out_cents = source_out imp,
                              direct_to_dest_cents = direct_to_dest imp,
                              fa_added_to_fanda_cents = fa_added imp,
                              dest_mtdc_eligible = eligible imp, map_mode = mode\<rparr>;
                    total_before = baselineSum baselineRows;
                    total_after = baselineSum rows4
                in if strict_neq total_before total_after then Inl ReconciliationFailure
                   else Inr (rows4, logRow)))))))"

text \<open>
  \<open>projectWithTransfers\<close>: the loop over the transfers, with the working rows and the
  log so far; the first error ends it.
\<close>

fun project_loop ::
  "RatesData option \<Rightarrow> BudgetRow list \<Rightarrow> BudgetRow list \<Rightarrow> MappingRow list
     \<Rightarrow> TransferItem list \<Rightarrow> error + BudgetRow list \<times> MappingRow list" where
  "project_loop ratesData snapshot working logs [] = Inr (working, logs)"
| "project_loop ratesData snapshot working logs (t # ts) =
     (case applyOne ratesData working snapshot (item_from t) (item_to t) (amount_cents t)
             (item_mode t) of
        Inl e \<Rightarrow> Inl e
      | Inr (rows, logRow) \<Rightarrow> project_loop ratesData snapshot rows (logs @ [logRow]) ts)"

definition projectWithTransfers ::
  "RatesData option \<Rightarrow> BudgetRow list \<Rightarrow> BudgetRow list \<Rightarrow> TransferItem list
     \<Rightarrow> error + BudgetRow list \<times> MappingRow list" where
  "projectWithTransfers ratesData baselineRows snapshot transfers =
     project_loop ratesData snapshot baselineRows [] transfers"

text \<open>The budget of the source's built-in sample data.\<close>

definition mockBudget :: "BudgetRow list" where
  "mockBudget =
     [\<lparr>account = ''53800'', description = ''Student Aid'', current_budget = Fin 50000,
       proposed_budget = Fin 50000, encumbrances = Some (Fin 0), change = None\<rparr>,
      \<lparr>account = ''51110'', description = ''PI Summer'', current_budget = Fin 0,
       proposed_budget = Fin 0, encumbrances = Some (Fin 0), change = None\<rparr>,
      \<lparr>account = ''52000'', description = ''Supplies'', current_budget = Fin 20000,
       proposed_budget = Fin 20000, encumbrances = Some (Fin 0), change = None\<rparr>,
      \<lparr>account = ''58960'', description = ''F&A'', current_budget = Fin 30000,
       proposed_budget = Fin 30000, encumbrances = Some (Fin 0), change = None\<rparr>]"

text \<open>The policy of the source's built-in sample data.\<close>

definition mockRates :: RatesData where
  "mockRates =
     \<lparr>fa_rate = Some \<lparr>rate = Some (double (276 / 1000))\<rparr>,
      wrs_account_numbers = Some \<lparr>indirect_costs = Some ''58960''\<rparr>,
      mtdc_eligible_accounts = Some [''51110'', ''52000'', ''53000'']\<rparr>"

text \<open>The same policy with another rate, given as the decimal it is written as.\<close>

definition mockRatesAt :: "rat \<Rightarrow> RatesData" where
  "mockRatesAt q = mockRates\<lparr>fa_rate := Some \<lparr>rate = Some (double q)\<rparr>\<rparr>"




text \<open>The sample budget with the proposed budget of its first account at -0.50 dollars.\<close>

definition overdrawnBudget :: "BudgetRow list" where
  "overdrawnBudget =
     [\<lparr>account = ''53800'', description = ''Student Aid'', current_budget = Fin 50000,
       proposed_budget = Fin (- 1 / 2), encumbrances = Some (Fin 0), change = None\<rparr>,
      \<lparr>account = ''51110'', description = ''PI Summer'', current_budget = Fin 0,
       proposed_budget = Fin 0, encumbrances = Some (Fin 0), change = None\<rparr>,
      \<lparr>account = ''52000'', description = ''Supplies'', current_budget = Fin 20000,
       proposed_budget = Fin 20000, encumbrances = Some (Fin 0), change = None\<rparr>,
      \<lparr>account = ''58960'', description = ''F&A'', current_budget = Fin 30000,
       proposed_budget = Fin 30000, encumbrances = Some (Fin 0), change = None\<rparr>]"

text \<open>
  What a transfer of 50 cents in mode \<open>budget_total\<close> from that account to the summer
  salary gives: the account is left at -1.00 dollars.
\<close>

definition overdrawnPosted :: "BudgetRow list" where
  "overdrawnPosted =
     [\<lparr>account = ''53800'', description = ''Student Aid'', current_budget = Fin 50000,
       proposed_budget = Fin (- 1), encumbrances = Some (Fin 0),
       change = Some (Fin (- 50001))\<rparr>,
      \<lparr>account = ''51110'', description = ''PI Summer'', current_budget = Fin 0,
       proposed_budget = Fin (39 / 100), encumbrances = Some (Fin 0),
       change = Some (Fin (39 / 100))\<rparr>,
      \<lparr>account = ''52000'', description = ''Supplies'', current_budget = Fin 20000,
       proposed_budget = Fin 20000, encumbrances = Some (Fin 0), change = Some (Fin 0)\<rparr>,
      \<lparr>account = ''58960'', description = ''F&A'', current_budget = Fin 30000,
       proposed_budget = Fin (3000011 / 100), encumbrances = Some (Fin 0),
       change = Some (Fin (11 / 100))\<rparr>]"

definition overdrawnLog :: MappingRow where
  "overdrawnLog =
     \<lparr>map_from = ''53800'', map_to = ''51110'', source_out_cents = Fin 50,
      direct_to_dest_cents = Fin 39, fa_added_to_fanda_cents = Fin 11,
      dest_mtdc_eligible = True, map_mode = BudgetTotal\<rparr>"

text \<open>The sample budget with one more row, whose current budget is \<open>-Infinity\<close>.\<close>

definition unboundedBudget :: "BudgetRow list" where
  "unboundedBudget =
     mockBudget @
     [\<lparr>account = ''59000'', description = ''Carry-forward'', current_budget = NInf,
       proposed_budget = Fin 0, encumbrances = None, change = None\<rparr>]"

text \<open>The sample policy with the summary row designated as the indirect-cost account.\<close>

definition summaryRates :: RatesData where
  "summaryRates = mockRates\<lparr>wrs_account_numbers := Some \<lparr>indirect_costs = Some ''SUMMARY''\<rparr>\<rparr>"

text \<open>One transfer of the sample data: 10000 dollars for the supplies.\<close>

definition mockTransfer :: TransferItem where
  "mockTransfer =
     \<lparr>item_id = ''t1'', item_from = ''53800'', item_to = ''52000'',
      amount_cents = Fin 1000000, item_mode = DirectToDest\<rparr>"

text \<open>The rows and the log row that this transfer gives on the sample data.\<close>

definition mockPosted :: "BudgetRow list" where
  "mockPosted =
     [\<lparr>account = ''53800'', description = ''Student Aid'', current_budget = Fin 50000,
       proposed_budget = Fin 37240, encumbrances = Some (Fin 0),
       change = Some (Fin (- 12760))\<rparr>,
      \<lparr>account = ''51110'', description = ''PI Summer'', current_budget = Fin 0,
       proposed_budget = Fin 0, encumbrances = Some (Fin 0), change = Some (Fin 0)\<rparr>,
      \<lparr>account = ''52000'', description = ''Supplies'', current_budget = Fin 20000,
       proposed_budget = Fin 30000, encumbrances = Some (Fin 0), change = Some (Fin 10000)\<rparr>,
      \<lparr>account = ''58960'', description = ''F&A'', current_budget = Fin 30000,
       proposed_budget = Fin 32760, encumbrances = Some (Fin 0), change = Some (Fin 2760)\<rparr>]"

definition mockLog :: MappingRow where
  "mockLog =
     \<lparr>map_from = ''53800'', map_to = ''52000'', source_out_cents = Fin 1276000,
      direct_to_dest_cents = Fin 1000000, fa_added_to_fanda_cents = Fin 276000,
      dest_mtdc_eligible = True, map_mode = DirectToDest\<rparr>"

text \<open>A budget with a summary row and without a row of the indirect-cost account.\<close>

definition summarisedBudget :: "BudgetRow list" where
  "summarisedBudget =
     [\<lparr>account = ''SUMMARY'', description = ''Total'', current_budget = Fin 70000,
       proposed_budget = Fin 70000, encumbrances = None, change = None\<rparr>,
      \<lparr>account = ''53800'', description = ''Student Aid'', current_budget = Fin 50000,
       proposed_budget = Fin 50000, encumbrances = None, change = None\<rparr>,
      \<lparr>account = ''52000'', description = ''Supplies'', current_budget = Fin 20000,
       proposed_budget = Fin 20000, encumbrances = None, change = None\<rparr>]"

text \<open>What a transfer of 1000 dollars from its supplies to its student aid gives.\<close>

definition summarisedPosted :: "BudgetRow list" where
  "summarisedPosted =
     [\<lparr>account = ''53800'', description = ''Student Aid'', current_budget = Fin 50000,
       proposed_budget = Fin 51000, encumbrances = None, change = Some (Fin 1000)\<rparr>,
      \<lparr>account = ''52000'', description = ''Supplies'', current_budget = Fin 20000,
       proposed_budget = Fin 19000, encumbrances = None, change = Some (Fin (- 1000))\<rparr>,
      \<lparr>account = ''58960'', description = ''F&A'', current_budget = Fin 0,
       proposed_budget = Fin 0, encumbrances = Some (Fin 0), change = Some (Fin 0)\<rparr>]"

definition summarisedLog :: MappingRow where
  "summarisedLog =
     \<lparr>map_from = ''52000'', map_to = ''53800'', source_out_cents = Fin 100000,
      direct_to_dest_cents = Fin 100000, fa_added_to_fanda_cents = Fin 0,
      dest_mtdc_eligible = False, map_mode = DirectToDest\<rparr>"

text \<open>
  What the sample transfer gives on the sample budget when the policy designates the
  account \<open>SUMMARY\<close>.
\<close>

definition summaryPosted :: "BudgetRow list" where
  "summaryPosted =
     [\<lparr>account = ''53800'', description = ''Student Aid'', current_budget = Fin 50000,
       proposed_budget = Fin 37240, encumbrances = Some (Fin 0),
       change = Some (Fin (- 12760))\<rparr>,
      \<lparr>account = ''51110'', description = ''PI Summer'', current_budget = Fin 0,
       proposed_budget = Fin 0, encumbrances = Some (Fin 0), change = Some (Fin 0)\<rparr>,
      \<lparr>account = ''52000'', description = ''Supplies'', current_budget = Fin 20000,
       proposed_budget = Fin 30000, encumbrances = Some (Fin 0), change = Some (Fin 10000)\<rparr>,
      \<lparr>account = ''58960'', description = ''F&A'', current_budget = Fin 30000,
       proposed_budget = Fin 30000, encumbrances = Some (Fin 0), change = Some (Fin 0)\<rparr>,
      \<lparr>account = ''SUMMARY'', description = ''F&A'', current_budget = Fin 0,
       proposed_budget = Fin 2760, encumbrances = Some (Fin 0), change = Some (Fin 2760)\<rparr>]"

section \<open>The ledger on a store\<close>

text \<open>
  The rows are objects and the row lists are arrays: \<open>applyOne\<close> receives references and
  writes through references. To tell a write to a copy from a write to an argument, the
  functions of the ledger are given a second time on an explicit store. An address is a
  position in the store; a new object or array takes the next free address. The store
  holds the row objects, the arrays of row references and the arrays of transfer
  requests. The policy, the requests themselves and the log rows are read or built but
  never written, and stay values.
\<close>

record store =
  objs :: "BudgetRow list"
  arrs :: "nat list list"
  items :: "TransferItem list list"

text \<open>The rows that an array refers to, as the store has them.\<close>

definition deref :: "store \<Rightarrow> nat \<Rightarrow> BudgetRow list" where
  "deref s a = map (\<lambda>p. objs s ! p) (arrs s ! a)"

definition new_obj :: "BudgetRow \<Rightarrow> store \<Rightarrow> nat \<times> store" where
  "new_obj r s = (length (objs s), s\<lparr>objs := objs s @ [r]\<rparr>)"

definition new_arr :: "nat list \<Rightarrow> store \<Rightarrow> nat \<times> store" where
  "new_arr ps s = (length (arrs s), s\<lparr>arrs := arrs s @ [ps]\<rparr>)"

text \<open>\<open>rows.push(p)\<close>\<close>

definition push :: "nat \<Rightarrow> nat \<Rightarrow> store \<Rightarrow> store" where
  "push p a s = s\<lparr>arrs := (arrs s)[a := arrs s ! a @ [p]]\<rparr>"

text \<open>\<open>.map((r) => ({ ...r }))\<close>: one new object for each row, with the fields of the row.\<close>

fun copy_all :: "nat list \<Rightarrow> store \<Rightarrow> nat list \<times> store" where
  "copy_all [] s = ([], s)"
| "copy_all (p # ps) s =
     (let (q, s1) = new_obj (objs s ! p) s;
          (qs, s2) = copy_all ps s1
      in (q # qs, s2))"

text \<open>\<open>rows.find((r) => r.account === acct)\<close>: the first reference to a row of the account.\<close>

definition find_ref :: "string \<Rightarrow> nat list \<Rightarrow> store \<Rightarrow> nat option" where
  "find_ref acct ps s = find (\<lambda>p. account (objs s ! p) = acct) ps"

text \<open>\<open>row.proposed_budget = v\<close> and \<open>r.change = Number(r.proposed_budget) - Number(r.current_budget)\<close>\<close>

definition set_proposed :: "nat \<Rightarrow> dollars \<Rightarrow> store \<Rightarrow> store" where
  "set_proposed p v s = s\<lparr>objs := (objs s)[p := (objs s ! p)\<lparr>proposed_budget := v\<rparr>]\<rparr>"

definition set_change_at :: "nat \<Rightarrow> store \<Rightarrow> store" where
  "set_change_at p s = s\<lparr>objs := (objs s)[p := set_change (objs s ! p)]\<rparr>"

text \<open>
  The first statements of \<open>applyOne\<close>: the filtered array, the array of the copies, and
  the row of the indirect-cost account, created and pushed when the copies have none.
\<close>

definition working_st :: "string \<Rightarrow> nat \<Rightarrow> store \<Rightarrow> (nat \<times> nat) \<times> store" where
  "working_st fanda baselineRows s =
     (let (filtered, s1) =
            new_arr (filter (\<lambda>p. account (objs s ! p) \<noteq> ''SUMMARY'') (arrs s ! baselineRows)) s;
          (copies, s2) = copy_all (arrs s1 ! filtered) s1;
          (rows, s3) = new_arr copies s2
      in case find_ref fanda (arrs s3 ! rows) s3 of
           Some fandaRow \<Rightarrow> ((rows, fandaRow), s3)
         | None \<Rightarrow>
             (let (fandaRow, s4) = new_obj (newFandaRow fanda) s3
              in ((rows, fandaRow), push fandaRow rows s4)))"

text \<open>The three postings and the loop that sets the change of every row.\<close>

definition post_st :: "nat \<Rightarrow> nat \<Rightarrow> nat \<Rightarrow> nat \<Rightarrow> Impact \<Rightarrow> store \<Rightarrow> store" where
  "post_st rows fromRow toRow fandaRow imp s =
     (let s1 = set_proposed fromRow
                 (num_sub (proposed_budget (objs s ! fromRow))
                          (Number_of (fromCents (source_out imp)))) s;
          s2 = set_proposed toRow
                 (num_add (proposed_budget (objs s1 ! toRow))
                          (Number_of (fromCents (direct_to_dest imp)))) s1;
          s3 = set_proposed fandaRow
                 (num_add (proposed_budget (objs s2 ! fandaRow))
                          (Number_of (fromCents (fa_added imp)))) s2
      in foldl (\<lambda>st p. set_change_at p st) s3 (arrs s3 ! rows))"

definition applyOne_st ::
  "RatesData option \<Rightarrow> nat \<Rightarrow> nat \<Rightarrow> string \<Rightarrow> string \<Rightarrow> cents \<Rightarrow> TransferMode \<Rightarrow> store
     \<Rightarrow> (error + nat \<times> MappingRow) \<times> store" where
  "applyOne_st ratesData baselineRows snapshot fromAcct toAcct amountCents mode s =
     (let fanda = fandaAcct ratesData in
      if fromAcct = fanda \<or> toAcct = fanda then (Inl ForbiddenIndirectTransfer, s)
      else
        (let ((rows, fandaRow), s1) = working_st fanda baselineRows s in
         case find_ref fromAcct (arrs s1 ! rows) s1 of
           None \<Rightarrow> (Inl (UnknownSourceAccount fromAcct), s1)
         | Some fromRow \<Rightarrow>
         (case find_ref toAcct (arrs s1 ! rows) s1 of
           None \<Rightarrow> (Inl (UnknownDestinationAccount toAcct), s1)
         | Some toRow \<Rightarrow>
         if fromAcct = toAcct then (Inl IdenticalAccounts, s1)
         else
         (case computeTransferImpact ratesData toAcct amountCents mode of
           Inl e \<Rightarrow> (Inl e, s1)
         | Inr imp \<Rightarrow>
         (let enc = encumbrancesFor fromAcct (deref s1 snapshot);
              fromAfter = num_sub (toCents (Num (proposed_budget (objs s1 ! fromRow))))
                                  (source_out imp)
          in if num_lt fromAfter (toCents (Num enc)) then (Inl (EncumbranceBreach fromAcct), s1)
             else if num_lt fromAfter (Fin 0) then (Inl (NegativeBalance fromAcct), s1)
             else
               (let s2 = post_st rows fromRow toRow fandaRow imp s1;
                    logRow = \<lparr>map_from = fromAcct, map_to = toAcct,
                              source_out_cents = source_out imp,
                              direct_to_dest_cents = direct_to_dest imp,
                              fa_added_to_fanda_cents = fa_added imp,
                              dest_mtdc_eligible = eligible imp, map_mode = mode\<rparr>;
                    total_before = baselineSum (deref s2 baselineRows);
                    total_after = baselineSum (deref s2 rows)
                in if strict_neq total_before total_after then (Inl ReconciliationFailure, s2)
                   else (Inr (rows, logRow), s2)))))))"

text \<open>
  The loop of \<open>projectWithTransfers\<close>. The array of the requests is read when the loop
  starts; the body has no reference to it.
\<close>

fun project_loop_st ::
  "RatesData option \<Rightarrow> nat \<Rightarrow> nat \<Rightarrow> MappingRow list \<Rightarrow> TransferItem list \<Rightarrow> store
     \<Rightarrow> (error + nat \<times> MappingRow list) \<times> store" where
  "project_loop_st ratesData snapshot working logs [] s = (Inr (working, logs), s)"
| "project_loop_st ratesData snapshot working logs (t # ts) s =
     (case applyOne_st ratesData working snapshot (item_from t) (item_to t) (amount_cents t)
             (item_mode t) s of
        (Inl e, s1) \<Rightarrow> (Inl e, s1)
      | (Inr (rows, logRow), s1) \<Rightarrow>
          project_loop_st ratesData snapshot rows (logs @ [logRow]) ts s1)"

definition projectWithTransfers_st ::
  "RatesData option \<Rightarrow> nat \<Rightarrow> nat \<Rightarrow> nat \<Rightarrow> store
     \<Rightarrow> (error + nat \<times> MappingRow list) \<times> store" where
  "projectWithTransfers_st ratesData baselineRows snapshot transfers s =
     project_loop_st ratesData snapshot baselineRows [] (items s ! transfers) s"

text \<open>
  A store holds its arguments when every array is there and every reference in it is to
  an object that is there.
\<close>

definition valid_array :: "store \<Rightarrow> nat \<Rightarrow> bool" where
  "valid_array s a = (a < length (arrs s) \<and> list_all (\<lambda>p. p < length (objs s)) (arrs s ! a))"

text \<open>
  What a call leaves of the store it was given: every object and every array that the
  store held is there with the value it had, and the arrays of requests are the same.
\<close>

definition untouched :: "store \<Rightarrow> store \<Rightarrow> bool" where
  "untouched s s' =
     (take (length (objs s)) (objs s') = objs s
      \<and> take (length (arrs s)) (arrs s') = arrs s
      \<and> items s' = items s)"

text \<open>The sample data in a store: the budget is the array 0, and the snapshot too.\<close>

definition mockStore :: store where
  "mockStore = \<lparr>objs = mockBudget, arrs = [ [0, 1, 2, 3] ], items = [ [mockTransfer] ]\<rparr>"

section \<open>Properties of the currency codec\<close>

lemma digit_char_is_digit: "d < 10 \<Longrightarrow> is_digit (digit_char d)"
  by (simp add: is_digit_def digit_char_def digit_chars_def) (simp add: nth_Cons')

lemma digit_val_digit_char: "d < 10 \<Longrightarrow> digit_val (digit_char d) = d"
proof -
  assume "d < 10"
  then have "d \<in> {0, 1, 2, 3, 4, 5, 6, 7, 8, 9}" by auto
  then show ?thesis
    by (auto simp add: digit_val_def digit_char_def digit_chars_def)
qed

lemma zero_is_digit: "is_digit CHR ''0''"
  by (simp add: is_digit_def digit_chars_def)

lemma not_digit_chars:
  "\<not> is_digit CHR ''.''" "\<not> is_digit CHR ''-''" "\<not> is_digit CHR ''+''" "\<not> is_digit CHR ''I''"
  by (simp_all add: is_digit_def digit_chars_def)

lemma digits_nonempty: "digits n \<noteq> []"
  by (subst digits.simps) simp

lemma digits_all_digit: "c \<in> set (digits n) \<Longrightarrow> is_digit c"
proof (induction n arbitrary: c rule: digits.induct)
  case (1 n)
  show ?case
  proof (cases "n < 10")
    case True
    with "1.prems" show ?thesis
      by (subst (asm) digits.simps) (simp add: digit_char_is_digit)
  next
    case False
    with "1.prems" have "c \<in> set (digits (n div 10)) \<or> c = digit_char (nat (n mod 10))"
      by (subst (asm) digits.simps) auto
    with False "1.IH" show ?thesis
      by (auto simp add: digit_char_is_digit)
  qed
qed

lemma parse_digits_snoc: "parse_digits (s @ [c]) = 10 * parse_digits s + int (digit_val c)"
  by (simp add: parse_digits_def)

lemma parse_digits_digits: "0 \<le> n \<Longrightarrow> parse_digits (digits n) = n"
proof (induction n rule: digits.induct)
  case (1 n)
  show ?case
  proof (cases "n < 10")
    case True
    with "1.prems" show ?thesis
      by (subst digits.simps) (simp add: parse_digits_def digit_val_digit_char)
  next
    case False
    with "1.IH" "1.prems" have "parse_digits (digits (n div 10)) = n div 10" by simp
    with False show ?thesis
      by (subst digits.simps) (simp add: parse_digits_snoc digit_val_digit_char)
  qed
qed

lemma length_digits_two: "n < 100 \<Longrightarrow> length (digits n) \<le> 2"
proof -
  assume n: "n < 100"
  have one: "\<And>k. k < 10 \<Longrightarrow> length (digits k) = 1"
    by (subst digits.simps) simp
  show ?thesis
  proof (cases "n < 10")
    case True
    then show ?thesis by (simp add: one)
  next
    case False
    with n have "n div 10 < 10" by simp
    with False show ?thesis
      by (subst digits.simps) (simp add: one)
  qed
qed

lemma parse_digits_zero_pad: "parse_digits (replicate k CHR ''0'' @ s) = parse_digits s"
proof -
  have "foldl (\<lambda>a c. 10 * a + int (digit_val c)) 0 (replicate k CHR ''0'') = 0"
    by (induction k) (simp_all add: digit_val_def digit_chars_def)
  then show ?thesis by (simp add: parse_digits_def)
qed

lemma split_dot_no_dot: "CHR ''.'' \<notin> set s \<Longrightarrow> split_dot s = [s]"
  by (induction s) auto

lemma split_dot_one_dot:
  "CHR ''.'' \<notin> set a \<Longrightarrow> CHR ''.'' \<notin> set b \<Longrightarrow> split_dot (a @ CHR ''.'' # b) = [a, b]"
  by (induction a) (auto simp add: split_dot_no_dot)

lemma takeWhile_all: "(\<And>c. c \<in> set s \<Longrightarrow> P c) \<Longrightarrow> takeWhile P s = s"
  by (induction s) auto

lemma takeWhile_stop:
  "(\<And>c. c \<in> set a \<Longrightarrow> P c) \<Longrightarrow> \<not> P x \<Longrightarrow> takeWhile P (a @ x # b) = a"
  by (induction a) auto

lemma dropWhile_stop:
  "(\<And>c. c \<in> set a \<Longrightarrow> P c) \<Longrightarrow> \<not> P x \<Longrightarrow> dropWhile P (a @ x # b) = x # b"
  by (induction a) auto

lemma parseInt_digit_string:
  assumes "s \<noteq> []" and "\<And>c. c \<in> set s \<Longrightarrow> is_digit c"
  shows "parseInt s = Fin (parse_digits s)"
proof -
  from assms have "is_digit (hd s)" by (cases s) auto
  then have "hd s \<noteq> CHR ''-''" and "hd s \<noteq> CHR ''+''"
    using not_digit_chars by auto
  with assms show ?thesis
    by (simp add: parseInt_def takeWhile_all)
qed

lemma parseInt_minus_digit_string:
  assumes "s \<noteq> []" and "\<And>c. c \<in> set s \<Longrightarrow> is_digit c"
  shows "parseInt (CHR ''-'' # s) = Fin (- parse_digits s)"
  using assms by (simp add: parseInt_def takeWhile_all)

lemma strip_decoration_keeps:
  "(\<And>c. c \<in> set s \<Longrightarrow> is_digit c \<or> c = CHR ''.'' \<or> c = CHR ''-'') \<Longrightarrow> strip_decoration s = s"
  unfolding strip_decoration_def by (induction s) auto

text \<open>The two fractional digits that \<open>fromCents\<close> and \<open>toFixed\<close> print.\<close>

lemma two_digits:
  assumes "0 \<le> m" and "m < 100"
  shows "length (padStart2 (digits m)) = 2"
    and "\<And>c. c \<in> set (padStart2 (digits m)) \<Longrightarrow> is_digit c"
    and "parse_digits (padStart2 (digits m)) = m"
proof -
  show "length (padStart2 (digits m)) = 2"
    using length_digits_two [OF assms(2)] by (simp add: padStart2_def)
  show "\<And>c. c \<in> set (padStart2 (digits m)) \<Longrightarrow> is_digit c"
    using zero_is_digit by (auto simp add: padStart2_def digits_all_digit)
  show "parse_digits (padStart2 (digits m)) = m"
    using assms(1) by (simp add: padStart2_def parse_digits_zero_pad parse_digits_digits)
qed

text \<open>The string of an amount of cents, and what \<open>toCents\<close> reads from such a string.\<close>

lemma fromCents_Fin:
  "fromCents (Fin x) =
     (if x < 0 then ''-'' else []) @ digits (\<bar>x\<bar> div 100) @ ''.''
       @ padStart2 (digits (\<bar>x\<bar> mod 100))"
proof -
  have "\<lfloor>(of_int \<bar>x\<bar> :: rat) / 100\<rfloor> = \<bar>x\<bar> div 100"
    using floor_divide_of_int_eq [of "\<bar>x\<bar>" 100, where ?'a = rat] by simp
  moreover have "\<not> \<bar>x\<bar> div 100 < 0" and "\<not> \<bar>x\<bar> mod 100 < 0"
    by (simp_all add: not_less pos_imp_zdiv_nonneg_iff)
  ultimately show ?thesis
    by (simp add: fromCents_def)
qed

lemma toCents_decimal_string:
  assumes "0 \<le> d" and "0 \<le> m" and "m < 100"
  shows "toCents (Str (digits d @ ''.'' @ padStart2 (digits m))) = Fin (d * 100 + m)"
    and "toCents (Str (''-'' @ digits d @ ''.'' @ padStart2 (digits m))) = Fin (- d * 100 + m)"
proof -
  let ?f = "padStart2 (digits m)"
  note f = two_digits [OF assms(2,3)]
  have fne: "?f \<noteq> []" using f(1) by auto
  have fdot: "CHR ''.'' \<notin> set ?f"
    using f(2) [of "CHR ''.''"] not_digit_chars by auto
  have ddot: "CHR ''.'' \<notin> set (digits d)"
    using digits_all_digit [of "CHR ''.''" d] not_digit_chars by auto
  have pf: "parseInt (slice02 (padEnd2 ?f)) = Fin m"
    using f(1) parseInt_digit_string [OF fne f(2)] f(3) by (simp add: padEnd2_def slice02_def)
  have oz: "or_zero (Fin m) = Fin m"
    by (simp add: or_zero_def)
  have s1: "strip_decoration (digits d @ ''.'' @ ?f) = digits d @ ''.'' @ ?f"
    by (rule strip_decoration_keeps) (use f(2) digits_all_digit in auto)
  have s2: "strip_decoration (''-'' @ digits d @ ''.'' @ ?f) = ''-'' @ digits d @ ''.'' @ ?f"
    by (rule strip_decoration_keeps) (use f(2) digits_all_digit in auto)
  have sp1: "split_dot (digits d @ ''.'' @ ?f) = [digits d, ?f]"
    using split_dot_one_dot [OF ddot fdot] by simp
  have sp2: "split_dot (''-'' @ digits d @ ''.'' @ ?f) = [''-'' @ digits d, ?f]"
    using split_dot_one_dot [of "''-'' @ digits d" ?f] ddot fdot by simp
  have pi1: "parseInt (digits d) = Fin d"
    using parseInt_digit_string [of "digits d"] digits_nonempty [of d] digits_all_digit [of _ d]
      assms(1)
    by (simp add: parse_digits_digits)
  have pi2: "parseInt (''-'' @ digits d) = Fin (- d)"
    using parseInt_minus_digit_string [of "digits d"] digits_nonempty [of d]
      digits_all_digit [of _ d] assms(1)
    by (simp add: parse_digits_digits)
  show "toCents (Str (digits d @ ''.'' @ ?f)) = Fin (d * 100 + m)"
    unfolding toCents_def by (simp add: s1 sp1 pf oz pi1 digits_nonempty Let_def del: append.simps)
  show "toCents (Str (''-'' @ digits d @ ''.'' @ ?f)) = Fin (- d * 100 + m)"
    unfolding toCents_def by (simp add: s2 sp2 pf oz pi2 digits_nonempty Let_def del: append.simps)
qed

text \<open>The cents that \<open>toCents\<close> reads from a number.\<close>

lemma toCents_Num_Fin:
  "toCents (Num (Fin q)) =
     (if q < 0
      then Fin (- (\<lfloor>\<bar>q\<bar> * 100 + 1 / 2\<rfloor> div 100) * 100 + \<lfloor>\<bar>q\<bar> * 100 + 1 / 2\<rfloor> mod 100)
      else Fin \<lfloor>q * 100 + 1 / 2\<rfloor>)"
proof -
  let ?n = "\<lfloor>\<bar>q\<bar> * 100 + 1 / 2\<rfloor>"
  have n: "0 \<le> ?n" by simp
  then have d: "0 \<le> ?n div 100" and m: "0 \<le> ?n mod 100" "?n mod 100 < 100"
    by (simp_all add: pos_imp_zdiv_nonneg_iff)
  note r = toCents_decimal_string [OF d m]
  show ?thesis
  proof (cases "q < 0")
    case True
    then have "toCents (Num (Fin q))
        = toCents (Str (''-'' @ digits (?n div 100) @ ''.'' @ padStart2 (digits (?n mod 100))))"
      by (simp add: toCents_def Let_def)
    with r(2) True show ?thesis by simp
  next
    case False
    then have "toCents (Num (Fin q))
        = toCents (Str (digits (?n div 100) @ ''.'' @ padStart2 (digits (?n mod 100))))"
      by (simp add: toCents_def Let_def)
    with r(1) False show ?thesis by simp
  qed
qed

lemma toCents_Num_special:
  "toCents (Num NaN) = Fin 0" "toCents (Num PInf) = Fin 0" "toCents (Num NInf) = NaN"
  by code_simp+

text \<open>The dollars that \<open>Number\<close> reads from the string of an amount of cents.\<close>

lemma Number_of_fromCents: "Number_of (fromCents (Fin x)) = Fin (of_int x / 100)"
proof -
  let ?d = "\<bar>x\<bar> div 100" and ?m = "\<bar>x\<bar> mod 100"
  let ?f = "padStart2 (digits ?m)"
  let ?body = "digits ?d @ CHR ''.'' # ?f"
  have m: "0 \<le> ?m" "?m < 100" by simp_all
  note f = two_digits [OF m]
  have d: "0 \<le> ?d" by (simp add: pos_imp_zdiv_nonneg_iff)
  have dm: "?d * 100 + ?m = \<bar>x\<bar>" by simp
  have hd_digit: "is_digit (hd ?body)"
    using digits_nonempty [of ?d] digits_all_digit [of "hd (digits ?d)" ?d] by simp
  have body_ne: "?body \<noteq> []" by simp
  have hd_sign: "hd ?body \<noteq> CHR ''-''" "hd ?body \<noteq> CHR ''+''"
    using hd_digit not_digit_chars by auto
  have not_inf: "?body \<noteq> ''Infinity''"
  proof
    assume "?body = ''Infinity''"
    then have "hd ?body = CHR ''I''" by simp
    with hd_digit not_digit_chars show False by simp
  qed
  have ip: "takeWhile is_digit ?body = digits ?d"
    by (rule takeWhile_stop) (simp_all add: digits_all_digit not_digit_chars)
  have rest: "dropWhile is_digit ?body = CHR ''.'' # ?f"
    by (rule dropWhile_stop) (simp_all add: digits_all_digit not_digit_chars)
  have fall: "list_all is_digit ?f"
    using f(2) by (simp add: list_all_iff)
  have split: "\<And>a b c :: rat. a * 100 + b = c \<Longrightarrow> a + b / 100 = c / 100"
    by (simp add: field_simps)
  have "(of_int (?d * 100 + ?m) :: rat) = of_int \<bar>x\<bar>"
    by (simp only: dm)
  then have "(of_int ?d :: rat) * 100 + of_int ?m = of_int \<bar>x\<bar>"
    by (simp only: of_int_add of_int_mult of_int_numeral)
  then have "(of_int ?d :: rat) + of_int ?m / 100 = of_int \<bar>x\<bar> / 100"
    by (rule split)
  then have val: "(of_int (parse_digits (digits ?d)) :: rat)
      + of_int (parse_digits ?f) / 10 ^ length ?f = of_int \<bar>x\<bar> / 100"
    by (simp add: parse_digits_digits [OF d] f(1) f(3))
  show ?thesis
  proof (cases "x < 0")
    case True
    then have s: "fromCents (Fin x) = CHR ''-'' # ?body"
      by (simp add: fromCents_Fin)
    show ?thesis
      unfolding s Number_of_def
      using True not_inf ip rest fall val digits_nonempty [of ?d]
      by (simp add: Let_def del: append.simps)
  next
    case False
    then have s: "fromCents (Fin x) = ?body"
      by (simp add: fromCents_Fin)
    show ?thesis
      unfolding s Number_of_def
      using False not_inf ip rest fall val digits_nonempty [of ?d] hd_sign body_ne
      by (simp add: Let_def del: append.simps)
  qed
qed

text \<open>
  Claim C4, as the code has it. Printing an integer amount of cents with \<open>fromCents\<close> and
  reading the string back with \<open>toCents\<close> returns the amount when it is zero or positive.
  For a negative amount \<open>toCents\<close> puts the sign on the dollars only and adds the cents:
  the result is off by twice the cents part, and is the amount again only when that part
  is zero.
\<close>

theorem toCents_fromCents:
  "toCents (Str (fromCents (Fin x))) =
     (if 0 \<le> x then Fin x else Fin (x + 2 * (\<bar>x\<bar> mod 100)))"
proof -
  let ?d = "\<bar>x\<bar> div 100" and ?m = "\<bar>x\<bar> mod 100"
  have m: "0 \<le> ?m" "?m < 100" by simp_all
  have d: "0 \<le> ?d" by (simp add: pos_imp_zdiv_nonneg_iff)
  have dm: "?d * 100 + ?m = \<bar>x\<bar>" by simp
  note r = toCents_decimal_string [OF d m]
  show ?thesis
  proof (cases "0 \<le> x")
    case True
    then have "fromCents (Fin x) = digits ?d @ ''.'' @ padStart2 (digits ?m)"
      by (simp add: fromCents_Fin)
    with r(1) dm True show ?thesis by simp
  next
    case False
    then have "fromCents (Fin x) = ''-'' @ digits ?d @ ''.'' @ padStart2 (digits ?m)"
      by (simp add: fromCents_Fin)
    moreover have "\<bar>x\<bar> = - x"
      using False by simp
    then have "- ?d * 100 + ?m = x + 2 * ?m"
      using dm by linarith
    ultimately show ?thesis
      using r(2) False by simp
  qed
qed

theorem toCents_fromCents_witness:
  "toCents (Str (fromCents (Fin 1567398))) = Fin 1567398
   \<and> toCents (Str (fromCents (Fin (- 150)))) = Fin (- 50)
   \<and> toCents (Str (fromCents (Fin (- 200)))) = Fin (- 200)"
  using toCents_fromCents [of 1567398] toCents_fromCents [of "- 150"]
    toCents_fromCents [of "- 200"]
  by simp

text \<open>Evaluation of the floor of a fraction of two numerals.\<close>

lemma floor_numeral_fraction:
  "\<lfloor>(numeral a :: rat) / numeral b\<rfloor> = numeral a div numeral b"
  "\<lfloor>(1 :: rat) / numeral b\<rfloor> = 1 div numeral b"
  "\<lfloor>- ((numeral a :: rat) / numeral b)\<rfloor> = - numeral a div numeral b"
  using floor_divide_of_int_eq [of "numeral a" "numeral b", where ?'a = rat]
    floor_divide_of_int_eq [of 1 "numeral b", where ?'a = rat]
    floor_divide_of_int_eq [of "- numeral a" "numeral b", where ?'a = rat]
  by simp_all


section \<open>Properties of the rounding to a double\<close>

lemma pow2_powi: "pow2 e = 2 powi e"
  by (simp add: pow2_def power_int_def field_simps)

lemma pow2_pos: "0 < pow2 e"
  by (simp add: pow2_powi zero_less_power_int)

lemma pow2_add: "pow2 (a + b) = pow2 a * pow2 b"
  by (simp add: pow2_powi power_int_add)

lemma pow2_nat: "pow2 (int n) = 2 ^ n"
  by (simp add: pow2_def)

lemma pow2_neg: "pow2 (- int n) = 1 / 2 ^ n"
  by (simp add: pow2_powi power_int_minus divide_inverse)

lemma pow2_Suc: "pow2 (e + 1) = 2 * pow2 e"
  using pow2_add [of e 1] by (simp add: pow2_def)

lemma pow2_mono: "a \<le> b \<Longrightarrow> pow2 a \<le> pow2 b"
  by (simp add: pow2_powi power_int_increasing)

lemma halvings_step: "2 \<le> q \<Longrightarrow> halvings q = Suc (halvings (q / 2))"
  by (subst halvings.simps) simp

lemma halvings_stop: "q < 2 \<Longrightarrow> halvings q = 0"
  by (subst halvings.simps) simp

lemma doublings_step: "0 < q \<Longrightarrow> q < 1 \<Longrightarrow> doublings q = Suc (doublings (q * 2))"
  by (subst doublings.simps) simp

lemma doublings_stop: "1 \<le> q \<Longrightarrow> doublings q = 0"
  by (subst doublings.simps) simp

lemma halvings_bounds: "1 \<le> q \<Longrightarrow> 2 ^ halvings q \<le> q \<and> q < 2 * 2 ^ halvings q"
proof (induction q rule: halvings.induct)
  case (1 q)
  show ?case
  proof (cases "2 \<le> q")
    case True
    then have "1 \<le> q / 2" by simp
    from 1(1) [OF True this] show ?thesis by (simp add: halvings_step [OF True])
  next
    case False
    then show ?thesis using 1(2) by (simp add: halvings_stop)
  qed
qed

lemma doublings_bounds:
  "0 < q \<Longrightarrow> q < 1 \<Longrightarrow> 1 \<le> q * 2 ^ doublings q \<and> q * 2 ^ doublings q < 2"
proof (induction q rule: doublings.induct)
  case (1 q)
  show ?case
  proof (cases "q * 2 < 1")
    case True
    have "0 < q * 2" using 1(2) by simp
    from 1(1) [OF _ this True] 1(2,3) show ?thesis
      by (simp add: doublings_step [OF 1(2,3)] mult.assoc)
  next
    case False
    then have "doublings (q * 2) = 0" by (simp add: doublings_stop)
    then show ?thesis using False 1(2,3) by (simp add: doublings_step [OF 1(2,3)])
  qed
qed

text \<open>The exponent brackets the value between two powers of two, and is the only one to.\<close>

lemma exponent_of_bounds:
  assumes "q \<noteq> 0"
  shows "pow2 (exponent_of q) \<le> \<bar>q\<bar> \<and> \<bar>q\<bar> < pow2 (exponent_of q + 1)"
proof (cases "1 \<le> \<bar>q\<bar>")
  case True
  from halvings_bounds [OF True] show ?thesis
    by (simp add: exponent_of_def True pow2_Suc pow2_nat)
next
  case False
  then have q: "0 < \<bar>q\<bar>" "\<bar>q\<bar> < 1" using assms by simp_all
  have e: "exponent_of q = - int (doublings \<bar>q\<bar>)" by (simp add: exponent_of_def False)
  from doublings_bounds [OF q] show ?thesis
    unfolding e pow2_Suc pow2_neg by (simp add: field_simps)
qed

lemma exponent_ofI:
  assumes "pow2 e \<le> \<bar>q\<bar>" and "\<bar>q\<bar> < pow2 (e + 1)"
  shows "exponent_of q = e"
proof -
  have q: "q \<noteq> 0" using assms(1) pow2_pos [of e] by auto
  note b = exponent_of_bounds [OF q]
  have "\<not> exponent_of q < e"
  proof
    assume "exponent_of q < e"
    then have "pow2 (exponent_of q + 1) \<le> pow2 e" by (intro pow2_mono) simp
    then show False using b assms(1) by simp
  qed
  moreover have "\<not> e < exponent_of q"
  proof
    assume "e < exponent_of q"
    then have "pow2 (e + 1) \<le> pow2 (exponent_of q)" by (intro pow2_mono) simp
    then show False using b assms(2) by simp
  qed
  ultimately show ?thesis by simp
qed

lemma round_even_bounds: "\<bar>of_int (round_even m) - m\<bar> \<le> 1 / 2"
proof -
  have "of_int \<lfloor>m\<rfloor> \<le> m" and "m < of_int \<lfloor>m\<rfloor> + 1" by linarith+
  then show ?thesis unfolding round_even_def Let_def by (auto simp: abs_le_iff)
qed

text \<open>
  In the normal range the double of a value is the value rounded to a multiple of the unit
  of its binade, and it is off by at most half that unit, which is at most the value
  divided by \<open>2 ^ 53\<close>.
\<close>

lemma double_at:
  assumes lo: "pow2 e \<le> \<bar>q\<bar>" and hi: "\<bar>q\<bar> < pow2 (e + 1)"
    and e_lo: "- 1022 \<le> e" and e_hi: "e < 1023"
  shows "double q = Fin (of_int (round_even (q / pow2 (e - 52))) * pow2 (e - 52))"
    and "\<bar>of_int (round_even (q / pow2 (e - 52))) * pow2 (e - 52) - q\<bar> \<le> \<bar>q\<bar> / 2 ^ 53"
proof -
  define ulp where "ulp = pow2 (e - 52)"
  define v where "v = of_int (round_even (q / ulp)) * ulp"
  have e: "exponent_of q = e" using lo hi by (rule exponent_ofI)
  have ulp_pos: "0 < ulp" by (simp add: ulp_def pow2_pos)
  have ulp: "ulp = pow2 e / 2 ^ 52"
    using pow2_add [of e "- 52"] by (simp add: ulp_def pow2_def)
  have "v - q = (of_int (round_even (q / ulp)) - q / ulp) * ulp"
    using ulp_pos by (simp add: v_def left_diff_distrib)
  then have "\<bar>v - q\<bar> = \<bar>of_int (round_even (q / ulp)) - q / ulp\<bar> * ulp"
    using ulp_pos by (simp add: abs_mult)
  also have "\<dots> \<le> 1 / 2 * ulp"
    using round_even_bounds [of "q / ulp"] ulp_pos by (intro mult_right_mono) simp_all
  finally have err: "\<bar>v - q\<bar> \<le> ulp / 2" by simp
  have half: "ulp / 2 \<le> \<bar>q\<bar> / 2 ^ 53" using lo by (simp add: ulp)
  have "pow2 (e + 1) \<le> pow2 1023" using e_hi by (intro pow2_mono) simp
  then have q_hi: "\<bar>q\<bar> < 2 ^ 1023" using hi by (simp add: pow2_def)
  then have "\<bar>q\<bar> / 2 ^ 53 < 2 ^ 1023" by (simp add: field_simps)
  then have "\<bar>v\<bar> < 2 ^ 1023 + 2 ^ 1023" using err half q_hi by linarith
  then have fin: "\<not> pow2 1024 \<le> v" "\<not> v \<le> - pow2 1024" by (simp_all add: pow2_def)
  show "double q = Fin (of_int (round_even (q / pow2 (e - 52))) * pow2 (e - 52))"
    using e_lo fin
    by (simp add: double_def Let_def e max_def ulp_def [symmetric] v_def [symmetric])
  show "\<bar>of_int (round_even (q / pow2 (e - 52))) * pow2 (e - 52) - q\<bar> \<le> \<bar>q\<bar> / 2 ^ 53"
    using err half by (simp add: ulp_def [symmetric] v_def [symmetric])
qed

lemma double_error:
  assumes lo: "1 / 2 ^ 1022 \<le> \<bar>q\<bar>" and hi: "\<bar>q\<bar> < 2 ^ 1023"
  shows "\<exists>v. double q = Fin v \<and> \<bar>v - q\<bar> \<le> \<bar>q\<bar> / 2 ^ 53"
proof -
  define e where "e = exponent_of q"
  have q: "q \<noteq> 0" using lo by auto
  have b: "pow2 e \<le> \<bar>q\<bar>" "\<bar>q\<bar> < pow2 (e + 1)"
    using exponent_of_bounds [OF q] by (simp_all add: e_def)
  have "pow2 (- 1022) \<le> \<bar>q\<bar>" using lo by (simp add: pow2_def)
  then have "pow2 (- 1022) < pow2 (e + 1)" using b(2) by simp
  then have e_lo: "- 1022 \<le> e"
    using pow2_mono [of "e + 1" "- 1022"] by (cases "- 1022 \<le> e") simp_all
  have "pow2 e < pow2 1023" using b(1) hi by (simp add: pow2_def)
  then have e_hi: "e < 1023"
    using pow2_mono [of 1023 e] by (cases "e < 1023") simp_all
  from double_at [OF b e_lo e_hi] show ?thesis by blast
qed

text \<open>The doubles of the sample data.\<close>

lemma double_276: "double (276 / 1000) = Fin (1242993497154257 / 4503599627370496)"
  by (simp add: double_at(1) [of "- 2"] pow2_def round_even_def Let_def floor_numeral_fraction)

lemma double_one_276:
  "double (1 + 1242993497154257 / 4503599627370496) = Fin (5746593124524753 / 4503599627370496)"
  by (simp add: double_at(1) [of 0] pow2_def round_even_def Let_def floor_numeral_fraction)

text \<open>
  \<open>Math.round\<close> of a value that is off by at most \<open>eps\<close> is the rounding of the exact value
  whenever the exact value is further than \<open>eps\<close> from a half.
\<close>

lemma round_stable:
  fixes q x eps :: rat
  assumes "\<bar>q - x\<bar> \<le> eps" and "\<bar>x - of_int (round x)\<bar> < 1 / 2 - eps"
  shows "\<lfloor>q + 1 / 2\<rfloor> = round x"
proof -
  have "of_int (round x) \<le> q + 1 / 2" and "q + 1 / 2 < of_int (round x) + 1"
    using assms by linarith+
  then show ?thesis by (simp add: floor_unique)
qed

lemma Math_round_near:
  fixes q x eps :: rat
  assumes "\<bar>q - x\<bar> \<le> eps"
  shows "\<bar>of_int \<lfloor>q + 1 / 2\<rfloor> - x\<bar> \<le> 1 / 2 + eps"
proof -
  have "of_int \<lfloor>q + 1 / 2\<rfloor> \<le> q + 1 / 2" and "q + 1 / 2 < of_int \<lfloor>q + 1 / 2\<rfloor> + 1"
    by linarith+
  then show ?thesis using assms by linarith
qed


section \<open>Properties of the eligibility resolver\<close>

text \<open>
  Claim C5. The designated indirect-cost account is never eligible, whatever the policy
  lists; under a policy an account is eligible exactly when it is listed and is not the
  indirect-cost account; without a policy no account is eligible. The designated account
  is the policy's \<open>indirect_costs\<close> value, and \<open>58960\<close> when the policy, the field or its
  content is missing (the empty string counts as missing).
\<close>

theorem isMtdcEligible_contract:
  "\<not> isMtdcEligible (fandaAcct pol) pol
   \<and> isMtdcEligible acct (Some rd) =
       (acct \<in> set (case mtdc_eligible_accounts rd of None \<Rightarrow> [] | Some e \<Rightarrow> e)
        \<and> acct \<noteq> fandaAcct (Some rd))
   \<and> \<not> isMtdcEligible acct None
   \<and> (wrs_account_numbers rd = Some w \<and> indirect_costs w = Some s \<and> s \<noteq> []
        \<longrightarrow> fandaAcct (Some rd) = s)
   \<and> (wrs_account_numbers rd = None
        \<or> (wrs_account_numbers rd = Some w
            \<and> (indirect_costs w = None \<or> indirect_costs w = Some []))
        \<longrightarrow> fandaAcct (Some rd) = ''58960'')
   \<and> fandaAcct None = ''58960''"
  by (auto simp add: isMtdcEligible_def fandaAcct_def Let_def split: option.splits)

theorem isMtdcEligible_contract_witness:
  "wrs_account_numbers (mockRates\<lparr>mtdc_eligible_accounts := Some [''58960'', ''52000'']\<rparr>)
     = Some \<lparr>indirect_costs = Some ''58960''\<rparr>
   \<and> indirect_costs \<lparr>indirect_costs = Some ''58960''\<rparr> = Some ''58960''
   \<and> ''58960'' \<noteq> []
   \<and> fandaAcct (Some (mockRates\<lparr>mtdc_eligible_accounts := Some [''58960'', ''52000'']\<rparr>))
       = ''58960''
   \<and> \<not> isMtdcEligible ''58960''
         (Some (mockRates\<lparr>mtdc_eligible_accounts := Some [''58960'', ''52000'']\<rparr>))
   \<and> isMtdcEligible ''52000''
         (Some (mockRates\<lparr>mtdc_eligible_accounts := Some [''58960'', ''52000'']\<rparr>))
   \<and> \<not> isMtdcEligible ''52000'' None"
  using isMtdcEligible_contract
    [of "Some (mockRates\<lparr>mtdc_eligible_accounts := Some [''58960'', ''52000'']\<rparr>)"
        "''52000''" "mockRates\<lparr>mtdc_eligible_accounts := Some [''58960'', ''52000'']\<rparr>"
        "\<lparr>indirect_costs = Some ''58960''\<rparr>" "''58960''"]
  by (simp add: mockRates_def isMtdcEligible_def fandaAcct_def)


section \<open>Properties of the transfer impact calculator\<close>

lemma mock_eligible: "isMtdcEligible ''52000'' (Some mockRates)"
  by (simp add: isMtdcEligible_def fandaAcct_def mockRates_def)

lemma mock_ineligible: "\<not> isMtdcEligible ''53800'' (Some mockRates)"
  by (simp add: isMtdcEligible_def fandaAcct_def mockRates_def)

lemma mock_fa_rate:
  "fa_rate mockRates = Some \<lparr>rate = Some (Fin (1242993497154257 / 4503599627370496))\<rparr>"
  using double_276 by (simp add: mockRates_def)

lemma mock_rate:
  "faRateForDest d (Some mockRates) = Fin (1242993497154257 / 4503599627370496)"
  by (simp add: faRateForDest_def mock_fa_rate)

lemma mockRatesAt_eligible: "isMtdcEligible ''52000'' (Some (mockRatesAt q))"
  by (simp add: isMtdcEligible_def fandaAcct_def mockRatesAt_def mockRates_def)

lemma mockRatesAt_rate: "faRateForDest d (Some (mockRatesAt q)) = double q"
  by (simp add: faRateForDest_def mockRatesAt_def)

text \<open>The rate that the calculator uses is the \<open>rate\<close> field of the policy.\<close>

lemma faRateForDest_field:
  "fa_rate rd = Some \<lparr>rate = Some x\<rparr> \<Longrightarrow> faRateForDest dest (Some rd) = x"
  by (simp add: faRateForDest_def)

subsection \<open>The two roundings\<close>

lemma mulRate_Fin: "mulRate (Fin a) (Fin r) = Math_round (double (of_int a * r))"
  by (simp add: mulRate_def)

lemma divByOnePlus_Fin:
  "divByOnePlus (Fin a) (Fin r) =
     Math_round (to_double (num_div (Fin (of_int a)) (double (1 + r))))"
  by (simp add: divByOnePlus_def)

text \<open>
  The product is rounded once. In the normal range of the doubles the double product is
  off by at most the exact product divided by \<open>2 ^ 53\<close>.
\<close>

lemma mulRate_accuracy:
  assumes a: "0 < a" and lo: "1 / 2 ^ 1022 \<le> r" and hi: "of_int a * r < 2 ^ 1023"
  shows "\<exists>q. mulRate (Fin a) (Fin r) = Fin \<lfloor>q + 1 / 2\<rfloor>
           \<and> \<bar>q - of_int a * r\<bar> \<le> of_int a * r / 2 ^ 53"
proof -
  have r: "0 < r" using lo by (rule less_le_trans [rotated]) simp
  have "1 * r \<le> of_int a * r" using a r by (intro mult_right_mono) simp_all
  then have "r \<le> of_int a * r" by simp
  then have x: "1 / 2 ^ 1022 \<le> \<bar>of_int a * r\<bar>" "\<bar>of_int a * r\<bar> < 2 ^ 1023"
    using lo hi r by linarith+
  from double_error [OF x] obtain q where
    "double (of_int a * r) = Fin q" "\<bar>q - of_int a * r\<bar> \<le> \<bar>of_int a * r\<bar> / 2 ^ 53"
    by blast
  moreover have "\<bar>of_int a * r\<bar> = of_int a * r" using a r by simp
  ultimately show ?thesis by (auto simp add: mulRate_Fin)
qed

text \<open>
  The quotient is rounded twice, in the sum \<open>1 + r\<close> and in the division. For an amount
  and a rate below \<open>2 ^ 53\<close> the double quotient is off by at most the amount divided by
  \<open>2 ^ 51\<close>.
\<close>

lemma divByOnePlus_accuracy:
  assumes a: "0 < a" "a < 2 ^ 53" and r: "0 < r" "r < 2 ^ 53"
  shows "\<exists>q. divByOnePlus (Fin a) (Fin r) = Fin \<lfloor>q + 1 / 2\<rfloor>
           \<and> \<bar>q - of_int a / (1 + r)\<bar> \<le> of_int a / 2 ^ 51"
proof -
  define x1 where "x1 = 1 + r"
  define A :: rat where "A = of_int a"
  have x1: "1 < x1" "x1 < 2 ^ 53 + 1" using r by (simp_all add: x1_def)
  have A: "1 \<le> A" "A < 2 ^ 53" using a by (simp_all add: A_def)
  have "1 / 2 ^ 1022 \<le> \<bar>x1\<bar>" "\<bar>x1\<bar> < 2 ^ 1023" using x1 by simp_all
  from double_error [OF this] obtain y where
    y: "double x1 = Fin y" and "\<bar>y - x1\<bar> \<le> \<bar>x1\<bar> / 2 ^ 53" by blast
  then have ey: "\<bar>y - x1\<bar> \<le> x1 / 2 ^ 53" using x1 by simp
  have "y - x1 \<le> x1 / 2 ^ 53" and "- (y - x1) \<le> x1 / 2 ^ 53"
    using ey by (rule abs_le_D1, rule abs_le_D2)
  then have y_lo: "1 / 2 < y" and y_hi: "y < 2 ^ 55" using x1 by simp_all
  define z where "z = A / y"
  have z_pos: "0 < z" using A y_lo by (simp add: z_def)
  have "A < 2 * A * y" using A y_lo by simp
  then have z_hi: "z < 2 * A" using y_lo by (simp add: z_def field_simps)
  have "1 / 2 ^ 55 < 1 / y" using y_lo y_hi by (simp add: field_simps)
  also have "1 / y \<le> z" using A y_lo by (simp add: z_def divide_right_mono)
  finally have "1 / 2 ^ 1022 \<le> \<bar>z\<bar>" using z_pos by simp
  moreover have "\<bar>z\<bar> < 2 ^ 1023" using z_hi A z_pos by simp
  ultimately obtain q where q: "double z = Fin q" and "\<bar>q - z\<bar> \<le> \<bar>z\<bar> / 2 ^ 53"
    using double_error by blast
  then have eq: "\<bar>q - z\<bar> \<le> z / 2 ^ 53" using z_pos by simp
  have "z - A / x1 = z * ((x1 - y) / x1)" using y_lo x1 by (simp add: z_def field_simps)
  then have "\<bar>z - A / x1\<bar> = z * (\<bar>x1 - y\<bar> / x1)"
    using z_pos x1 by (simp add: abs_mult)
  also have "\<bar>x1 - y\<bar> / x1 \<le> 1 / 2 ^ 53"
    using ey x1 by (simp add: field_simps abs_minus_commute)
  finally have "\<bar>z - A / x1\<bar> \<le> z / 2 ^ 53" using z_pos by (simp add: mult_left_mono)
  then have "\<bar>q - A / x1\<bar> \<le> 2 * z / 2 ^ 53" using eq by linarith
  also have "\<dots> \<le> A / 2 ^ 51" using z_hi by simp
  finally have "\<bar>q - of_int a / (1 + r)\<bar> \<le> of_int a / 2 ^ 51" by (simp add: A_def x1_def)
  moreover have "divByOnePlus (Fin a) (Fin r) = Fin \<lfloor>q + 1 / 2\<rfloor>"
    using y q y_lo by (simp add: divByOnePlus_Fin x1_def [symmetric] z_def A_def)
  ultimately show ?thesis by blast
qed

subsection \<open>The sample rate\<close>

lemma mock_divByOnePlus:
  "divByOnePlus (Fin 2000000) (Fin (1242993497154257 / 4503599627370496)) = Fin 1567398"
  "divByOnePlus (Fin 6000000) (Fin (1242993497154257 / 4503599627370496)) = Fin 4702194"
  "divByOnePlus (Fin 100) (Fin (1242993497154257 / 4503599627370496)) = Fin 78"
  using double_one_276
  by (simp_all add: divByOnePlus_Fin double_at(1) [of 20] double_at(1) [of 22]
      double_at(1) [of 6] pow2_def round_even_def Let_def floor_numeral_fraction)

lemma mock_mulRate:
  "mulRate (Fin 1000000) (Fin (1242993497154257 / 4503599627370496)) = Fin 276000"
  by (simp add: mulRate_Fin double_at(1) [of 18] pow2_def round_even_def Let_def
      floor_numeral_fraction)

subsection \<open>Rates at which the double arithmetic decides the cent\<close>

lemma double_12: "double (12 / 100) = Fin (1080863910568919 / 9007199254740992)"
  by (simp add: double_at(1) [of "- 4"] pow2_def round_even_def Let_def floor_numeral_fraction)

lemma divByOnePlus_12:
  "divByOnePlus (Fin 14) (Fin (1080863910568919 / 9007199254740992)) = Fin 12"
proof -
  have "double (1 + 1080863910568919 / 9007199254740992)
      = Fin (1261007895663739 / 1125899906842624)"
    by (simp add: double_at(1) [of 0] pow2_def round_even_def Let_def floor_numeral_fraction)
  then show ?thesis
    by (simp add: divByOnePlus_Fin double_at(1) [of 3] pow2_def round_even_def Let_def
        floor_numeral_fraction)
qed

lemma double_145: "double (145 / 1000) = Fin (5224175567749775 / 36028797018963968)"
  by (simp add: double_at(1) [of "- 3"] pow2_def round_even_def Let_def floor_numeral_fraction)

lemma mulRate_145:
  "mulRate (Fin 100) (Fin (5224175567749775 / 36028797018963968)) = Fin 14"
  by (simp add: mulRate_Fin double_at(1) [of 3] pow2_def round_even_def Let_def
      floor_numeral_fraction)

lemma double_7: "double (7 / 10) = Fin (3152519739159347 / 4503599627370496)"
  by (simp add: double_at(1) [of "- 1"] pow2_def round_even_def Let_def floor_numeral_fraction)

lemma mulRate_7:
  "mulRate (Fin 5) (Fin (3152519739159347 / 4503599627370496)) = Fin 4"
  by (simp add: mulRate_Fin double_at(1) [of 1] pow2_def round_even_def Let_def
      floor_numeral_fraction)

subsection \<open>The two modes\<close>

text \<open>
  Claim C2. In mode \<open>budget_total\<close> a positive integer amount \<open>a\<close> is the amount leaving the
  source. For a destination that is eligible, under a policy whose \<open>rate\<close> field is
  \<open>r > 0\<close>, the destination receives \<open>Math.round\<close> of the double quotient \<open>a / (1 + r)\<close>, the
  sum and the quotient each rounded to a double, and the indirect-cost line the rest. For
  an amount and a rate below \<open>2 ^ 53\<close> this is within half a cent and \<open>a / 2 ^ 51\<close> of the exact
  quotient, and it is the exact quotient rounded to the nearest cent whenever that quotient
  is further than \<open>a / 2 ^ 51\<close> from a half cent. For an ineligible destination the
  destination receives \<open>a\<close> and nothing is added. With the rate 0.276 and 2000000 cents the
  split is 1567398 and 432602.
\<close>

theorem budget_total_split:
  assumes "0 < a"
  shows "(isMtdcEligible dest (Some rd) \<and> fa_rate rd = Some \<lparr>rate = Some (Fin r)\<rparr> \<and> 0 < r \<longrightarrow>
            computeTransferImpact (Some rd) dest (Fin a) BudgetTotal =
              Inr \<lparr>source_out = Fin a,
                   direct_to_dest =
                     Math_round (to_double (num_div (Fin (of_int a)) (double (1 + r)))),
                   fa_added =
                     num_sub (Fin a)
                       (Math_round (to_double (num_div (Fin (of_int a)) (double (1 + r))))),
                   eligible = True\<rparr>)
       \<and> (isMtdcEligible dest (Some rd) \<and> fa_rate rd = Some \<lparr>rate = Some (Fin r)\<rparr> \<and> 0 < r
            \<and> r < 2 ^ 53 \<and> a < 2 ^ 53 \<longrightarrow>
            (\<exists>d. computeTransferImpact (Some rd) dest (Fin a) BudgetTotal =
                    Inr \<lparr>source_out = Fin a, direct_to_dest = Fin d, fa_added = Fin (a - d),
                         eligible = True\<rparr>
                \<and> \<bar>of_int d - of_int a / (1 + r)\<bar> \<le> 1 / 2 + of_int a / 2 ^ 51
                \<and> (\<bar>of_int a / (1 + r) - of_int (round (of_int a / (1 + r)))\<bar>
                      < 1 / 2 - of_int a / 2 ^ 51 \<longrightarrow>
                    d = round (of_int a / (1 + r)))))
       \<and> (\<not> isMtdcEligible dest pol \<longrightarrow>
            computeTransferImpact pol dest (Fin a) BudgetTotal =
              Inr \<lparr>source_out = Fin a, direct_to_dest = Fin a, fa_added = Fin 0,
                   eligible = False\<rparr>)
       \<and> (isMtdcEligible dest (Some rd) \<and> fa_rate rd = Some \<lparr>rate = Some (double (276 / 1000))\<rparr>
            \<longrightarrow>
            computeTransferImpact (Some rd) dest (Fin 2000000) BudgetTotal =
              Inr \<lparr>source_out = Fin 2000000, direct_to_dest = Fin 1567398,
                   fa_added = Fin 432602, eligible = True\<rparr>)"
proof (intro conjI impI)
  assume h: "isMtdcEligible dest (Some rd) \<and> fa_rate rd = Some \<lparr>rate = Some (Fin r)\<rparr> \<and> 0 < r"
  then have "faRateForDest dest (Some rd) = Fin r" by (simp add: faRateForDest_field)
  with h assms show "computeTransferImpact (Some rd) dest (Fin a) BudgetTotal =
      Inr \<lparr>source_out = Fin a,
           direct_to_dest = Math_round (to_double (num_div (Fin (of_int a)) (double (1 + r)))),
           fa_added =
             num_sub (Fin a)
               (Math_round (to_double (num_div (Fin (of_int a)) (double (1 + r))))),
           eligible = True\<rparr>"
    by (simp add: computeTransferImpact_def Let_def divByOnePlus_Fin)
next
  assume h: "isMtdcEligible dest (Some rd) \<and> fa_rate rd = Some \<lparr>rate = Some (Fin r)\<rparr> \<and> 0 < r
      \<and> r < 2 ^ 53 \<and> a < 2 ^ 53"
  then have rate: "faRateForDest dest (Some rd) = Fin r" by (simp add: faRateForDest_field)
  from h assms divByOnePlus_accuracy [of a r] obtain q where
    q: "divByOnePlus (Fin a) (Fin r) = Fin \<lfloor>q + 1 / 2\<rfloor>"
    and near: "\<bar>q - of_int a / (1 + r)\<bar> \<le> of_int a / 2 ^ 51"
    by blast
  have "computeTransferImpact (Some rd) dest (Fin a) BudgetTotal =
      Inr \<lparr>source_out = Fin a, direct_to_dest = Fin \<lfloor>q + 1 / 2\<rfloor>,
           fa_added = Fin (a - \<lfloor>q + 1 / 2\<rfloor>), eligible = True\<rparr>"
    using h assms rate q by (simp add: computeTransferImpact_def Let_def num_sub_def)
  moreover have "\<bar>of_int \<lfloor>q + 1 / 2\<rfloor> - of_int a / (1 + r)\<bar> \<le> 1 / 2 + of_int a / 2 ^ 51"
    using near by (rule Math_round_near)
  moreover have "\<bar>of_int a / (1 + r) - of_int (round (of_int a / (1 + r)))\<bar>
      < 1 / 2 - of_int a / 2 ^ 51 \<longrightarrow> \<lfloor>q + 1 / 2\<rfloor> = round (of_int a / (1 + r))"
    using round_stable [OF near] by blast
  ultimately show "\<exists>d. computeTransferImpact (Some rd) dest (Fin a) BudgetTotal =
        Inr \<lparr>source_out = Fin a, direct_to_dest = Fin d, fa_added = Fin (a - d),
             eligible = True\<rparr>
      \<and> \<bar>of_int d - of_int a / (1 + r)\<bar> \<le> 1 / 2 + of_int a / 2 ^ 51
      \<and> (\<bar>of_int a / (1 + r) - of_int (round (of_int a / (1 + r)))\<bar>
            < 1 / 2 - of_int a / 2 ^ 51 \<longrightarrow>
          d = round (of_int a / (1 + r)))"
    by blast
next
  assume "\<not> isMtdcEligible dest pol"
  with assms show "computeTransferImpact pol dest (Fin a) BudgetTotal =
      Inr \<lparr>source_out = Fin a, direct_to_dest = Fin a, fa_added = Fin 0, eligible = False\<rparr>"
    by (simp add: computeTransferImpact_def Let_def)
next
  assume h: "isMtdcEligible dest (Some rd)
      \<and> fa_rate rd = Some \<lparr>rate = Some (double (276 / 1000))\<rparr>"
  then have "faRateForDest dest (Some rd) = Fin (1242993497154257 / 4503599627370496)"
    unfolding double_276 by (simp add: faRateForDest_field)
  with h show "computeTransferImpact (Some rd) dest (Fin 2000000) BudgetTotal =
      Inr \<lparr>source_out = Fin 2000000, direct_to_dest = Fin 1567398, fa_added = Fin 432602,
           eligible = True\<rparr>"
    by (simp add: computeTransferImpact_def Let_def mock_divByOnePlus num_sub_def)
qed

theorem budget_total_split_witness:
  "(0::int) < 2000000
   \<and> isMtdcEligible ''52000'' (Some mockRates)
   \<and> fa_rate mockRates = Some \<lparr>rate = Some (Fin (1242993497154257 / 4503599627370496))\<rparr>
   \<and> (0::rat) < 1242993497154257 / 4503599627370496
   \<and> (1242993497154257 / 4503599627370496 :: rat) < 2 ^ 53
   \<and> (2000000::int) < 2 ^ 53
   \<and> computeTransferImpact (Some mockRates) ''52000'' (Fin 2000000) BudgetTotal =
       Inr \<lparr>source_out = Fin 2000000, direct_to_dest = Fin 1567398, fa_added = Fin 432602,
            eligible = True\<rparr>
   \<and> \<bar>(1567398::rat) - 2000000 / (1 + 1242993497154257 / 4503599627370496)\<bar>
       \<le> 1 / 2 + 2000000 / 2 ^ 51
   \<and> \<not> isMtdcEligible ''53800'' (Some mockRates)
   \<and> computeTransferImpact (Some mockRates) ''53800'' (Fin 2000000) BudgetTotal =
       Inr \<lparr>source_out = Fin 2000000, direct_to_dest = Fin 2000000, fa_added = Fin 0,
            eligible = False\<rparr>"
  using budget_total_split [where a = 2000000 and dest = "''52000''" and rd = mockRates
      and r = "1242993497154257 / 4503599627370496" and pol = "Some mockRates"]
    budget_total_split [where a = 2000000 and dest = "''53800''" and rd = mockRates
      and r = "1242993497154257 / 4503599627370496" and pol = "Some mockRates"]
    mock_eligible mock_ineligible mock_fa_rate double_276 double_one_276
  by (simp add: double_at(1) [of 20] pow2_def round_even_def Let_def floor_numeral_fraction
      num_sub_def)

text \<open>
  The destination does not always receive the exact quotient rounded to the nearest cent.
  At the rate 0.12 and 14 cents the exact quotient is 12.5 with the rate as it is written,
  and just above 12.5 with the double that the policy holds, and rounds to 13 either way;
  the sum \<open>1 + 0.12\<close> rounds up to a double above 1.12, the double quotient is
  12.499999999999998, and the destination receives 12.
\<close>

theorem budget_total_split_counterexample:
  "computeTransferImpact (Some (mockRatesAt (12 / 100))) ''52000'' (Fin 14) BudgetTotal =
     Inr \<lparr>source_out = Fin 14, direct_to_dest = Fin 12, fa_added = Fin 2, eligible = True\<rparr>
   \<and> round ((14::rat) / (1 + 12 / 100)) = 13
   \<and> fa_rate (mockRatesAt (12 / 100)) =
       Some \<lparr>rate = Some (Fin (1080863910568919 / 9007199254740992))\<rparr>
   \<and> round ((14::rat) / (1 + 1080863910568919 / 9007199254740992)) = 13"
proof -
  have "faRateForDest ''52000'' (Some (mockRatesAt (12 / 100)))
      = Fin (1080863910568919 / 9007199254740992)"
    unfolding mockRatesAt_rate double_12 ..
  then have "computeTransferImpact (Some (mockRatesAt (12 / 100))) ''52000'' (Fin 14) BudgetTotal =
     Inr \<lparr>source_out = Fin 14, direct_to_dest = Fin 12, fa_added = Fin 2, eligible = True\<rparr>"
    by (simp add: computeTransferImpact_def Let_def mockRatesAt_eligible divByOnePlus_12
        num_sub_def)
  moreover have "fa_rate (mockRatesAt (12 / 100)) =
      Some \<lparr>rate = Some (Fin (1080863910568919 / 9007199254740992))\<rparr>"
    unfolding mockRatesAt_def double_12 by simp
  moreover have "round ((14::rat) / (1 + 12 / 100)) = 13"
    "round ((14::rat) / (1 + 1080863910568919 / 9007199254740992)) = 13"
    by (simp_all add: round_def floor_numeral_fraction)
  ultimately show ?thesis by blast
qed

text \<open>
  Claim C3. In mode \<open>direct_to_dest\<close> a positive integer amount \<open>a\<close> is what the destination
  receives. For a destination that is eligible, under a policy whose \<open>rate\<close> field is
  \<open>r > 0\<close>, the indirect cost added is \<open>Math.round\<close> of the double product \<open>a * r\<close> and the
  source gives both. In the normal range of the doubles this is within half a cent and
  \<open>a * r / 2 ^ 53\<close> of the exact product, and it is the exact product rounded to the nearest
  cent whenever that product is further than \<open>a * r / 2 ^ 53\<close> from a half cent. For an
  ineligible destination nothing is added and the source gives \<open>a\<close>. With the rate 0.276
  and 1000000 cents the indirect cost is 276000 and the source gives 1276000; an ineligible
  destination and 500000 cents add nothing.
\<close>

theorem direct_to_dest_split:
  assumes "0 < a"
  shows "(isMtdcEligible dest (Some rd) \<and> fa_rate rd = Some \<lparr>rate = Some (Fin r)\<rparr> \<and> 0 < r \<longrightarrow>
            computeTransferImpact (Some rd) dest (Fin a) DirectToDest =
              Inr \<lparr>source_out = num_add (Fin a) (Math_round (double (of_int a * r))),
                   direct_to_dest = Fin a,
                   fa_added = Math_round (double (of_int a * r)),
                   eligible = True\<rparr>)
       \<and> (isMtdcEligible dest (Some rd) \<and> fa_rate rd = Some \<lparr>rate = Some (Fin r)\<rparr>
            \<and> 1 / 2 ^ 1022 \<le> r \<and> of_int a * r < 2 ^ 1023 \<longrightarrow>
            (\<exists>f. computeTransferImpact (Some rd) dest (Fin a) DirectToDest =
                    Inr \<lparr>source_out = Fin (a + f), direct_to_dest = Fin a, fa_added = Fin f,
                         eligible = True\<rparr>
                \<and> \<bar>of_int f - of_int a * r\<bar> \<le> 1 / 2 + of_int a * r / 2 ^ 53
                \<and> (\<bar>of_int a * r - of_int (round (of_int a * r))\<bar>
                      < 1 / 2 - of_int a * r / 2 ^ 53 \<longrightarrow>
                    f = round (of_int a * r))))
       \<and> (\<not> isMtdcEligible dest pol \<longrightarrow>
            computeTransferImpact pol dest (Fin a) DirectToDest =
              Inr \<lparr>source_out = Fin a, direct_to_dest = Fin a, fa_added = Fin 0,
                   eligible = False\<rparr>)
       \<and> (isMtdcEligible dest (Some rd) \<and> fa_rate rd = Some \<lparr>rate = Some (double (276 / 1000))\<rparr>
            \<longrightarrow>
            computeTransferImpact (Some rd) dest (Fin 1000000) DirectToDest =
              Inr \<lparr>source_out = Fin 1276000, direct_to_dest = Fin 1000000,
                   fa_added = Fin 276000, eligible = True\<rparr>)
       \<and> (\<not> isMtdcEligible dest pol \<longrightarrow>
            computeTransferImpact pol dest (Fin 500000) DirectToDest =
              Inr \<lparr>source_out = Fin 500000, direct_to_dest = Fin 500000, fa_added = Fin 0,
                   eligible = False\<rparr>)"
proof (intro conjI impI)
  assume h: "isMtdcEligible dest (Some rd) \<and> fa_rate rd = Some \<lparr>rate = Some (Fin r)\<rparr> \<and> 0 < r"
  then have "faRateForDest dest (Some rd) = Fin r" by (simp add: faRateForDest_field)
  with h assms show "computeTransferImpact (Some rd) dest (Fin a) DirectToDest =
      Inr \<lparr>source_out = num_add (Fin a) (Math_round (double (of_int a * r))),
           direct_to_dest = Fin a,
           fa_added = Math_round (double (of_int a * r)),
           eligible = True\<rparr>"
    by (simp add: computeTransferImpact_def Let_def mulRate_Fin)
next
  assume h: "isMtdcEligible dest (Some rd) \<and> fa_rate rd = Some \<lparr>rate = Some (Fin r)\<rparr>
      \<and> 1 / 2 ^ 1022 \<le> r \<and> of_int a * r < 2 ^ 1023"
  then have rate: "faRateForDest dest (Some rd) = Fin r" by (simp add: faRateForDest_field)
  have r: "0 < r" using h by (intro less_le_trans [of 0 "1 / 2 ^ 1022" r]) simp_all
  from h assms mulRate_accuracy [of a r] obtain q where
    q: "mulRate (Fin a) (Fin r) = Fin \<lfloor>q + 1 / 2\<rfloor>"
    and near: "\<bar>q - of_int a * r\<bar> \<le> of_int a * r / 2 ^ 53"
    by blast
  have "computeTransferImpact (Some rd) dest (Fin a) DirectToDest =
      Inr \<lparr>source_out = Fin (a + \<lfloor>q + 1 / 2\<rfloor>), direct_to_dest = Fin a,
           fa_added = Fin \<lfloor>q + 1 / 2\<rfloor>, eligible = True\<rparr>"
    using h assms rate q r by (simp add: computeTransferImpact_def Let_def)
  moreover have "\<bar>of_int \<lfloor>q + 1 / 2\<rfloor> - of_int a * r\<bar> \<le> 1 / 2 + of_int a * r / 2 ^ 53"
    using near by (rule Math_round_near)
  moreover have "\<bar>of_int a * r - of_int (round (of_int a * r))\<bar>
      < 1 / 2 - of_int a * r / 2 ^ 53 \<longrightarrow> \<lfloor>q + 1 / 2\<rfloor> = round (of_int a * r)"
    using round_stable [OF near] by blast
  ultimately show "\<exists>f. computeTransferImpact (Some rd) dest (Fin a) DirectToDest =
        Inr \<lparr>source_out = Fin (a + f), direct_to_dest = Fin a, fa_added = Fin f,
             eligible = True\<rparr>
      \<and> \<bar>of_int f - of_int a * r\<bar> \<le> 1 / 2 + of_int a * r / 2 ^ 53
      \<and> (\<bar>of_int a * r - of_int (round (of_int a * r))\<bar>
            < 1 / 2 - of_int a * r / 2 ^ 53 \<longrightarrow>
          f = round (of_int a * r))"
    by blast
next
  assume "\<not> isMtdcEligible dest pol"
  with assms show "computeTransferImpact pol dest (Fin a) DirectToDest =
      Inr \<lparr>source_out = Fin a, direct_to_dest = Fin a, fa_added = Fin 0, eligible = False\<rparr>"
    by (simp add: computeTransferImpact_def Let_def)
next
  assume h: "isMtdcEligible dest (Some rd)
      \<and> fa_rate rd = Some \<lparr>rate = Some (double (276 / 1000))\<rparr>"
  then have "faRateForDest dest (Some rd) = Fin (1242993497154257 / 4503599627370496)"
    unfolding double_276 by (simp add: faRateForDest_field)
  with h show "computeTransferImpact (Some rd) dest (Fin 1000000) DirectToDest =
      Inr \<lparr>source_out = Fin 1276000, direct_to_dest = Fin 1000000, fa_added = Fin 276000,
           eligible = True\<rparr>"
    by (simp add: computeTransferImpact_def Let_def mock_mulRate)
next
  assume "\<not> isMtdcEligible dest pol"
  then show "computeTransferImpact pol dest (Fin 500000) DirectToDest =
      Inr \<lparr>source_out = Fin 500000, direct_to_dest = Fin 500000, fa_added = Fin 0,
           eligible = False\<rparr>"
    by (simp add: computeTransferImpact_def Let_def)
qed

theorem direct_to_dest_split_witness:
  "(0::int) < 1000000
   \<and> isMtdcEligible ''52000'' (Some mockRates)
   \<and> fa_rate mockRates = Some \<lparr>rate = Some (Fin (1242993497154257 / 4503599627370496))\<rparr>
   \<and> (0::rat) < 1242993497154257 / 4503599627370496
   \<and> (1 / 2 ^ 1022 :: rat) \<le> 1242993497154257 / 4503599627370496
   \<and> (of_int 1000000 * (1242993497154257 / 4503599627370496) :: rat) < 2 ^ 1023
   \<and> computeTransferImpact (Some mockRates) ''52000'' (Fin 1000000) DirectToDest =
       Inr \<lparr>source_out = Fin 1276000, direct_to_dest = Fin 1000000, fa_added = Fin 276000,
            eligible = True\<rparr>
   \<and> \<bar>(276000::rat) - 1000000 * (1242993497154257 / 4503599627370496)\<bar>
       \<le> 1 / 2 + 1000000 * (1242993497154257 / 4503599627370496) / 2 ^ 53
   \<and> \<not> isMtdcEligible ''53800'' (Some mockRates)
   \<and> computeTransferImpact (Some mockRates) ''53800'' (Fin 500000) DirectToDest =
       Inr \<lparr>source_out = Fin 500000, direct_to_dest = Fin 500000, fa_added = Fin 0,
            eligible = False\<rparr>"
  using direct_to_dest_split [where a = 1000000 and dest = "''52000''" and rd = mockRates
      and r = "1242993497154257 / 4503599627370496" and pol = "Some mockRates"]
    direct_to_dest_split [where a = 500000 and dest = "''53800''" and rd = mockRates
      and r = "1242993497154257 / 4503599627370496" and pol = "Some mockRates"]
    mock_eligible mock_ineligible mock_fa_rate double_276
  by (simp add: double_at(1) [of 18] pow2_def round_even_def Let_def floor_numeral_fraction)

text \<open>
  The indirect cost is not always the exact product rounded to the nearest cent, whether
  the rate is read as the decimal it is written as or as the double that the policy holds.
  At 100 cents and the rate 0.145 the product with the written rate is 14.5, which rounds
  to 15; the double product is 14.499999999999998 and 14 is added. At 5 cents and the rate
  0.7 the product with the double of the rate is below 3.5 and rounds to 3; the double
  product is 3.5 and 4 is added.
\<close>

theorem direct_to_dest_split_counterexample:
  "computeTransferImpact (Some (mockRatesAt (145 / 1000))) ''52000'' (Fin 100) DirectToDest =
     Inr \<lparr>source_out = Fin 114, direct_to_dest = Fin 100, fa_added = Fin 14, eligible = True\<rparr>
   \<and> round ((100::rat) * (145 / 1000)) = 15
   \<and> computeTransferImpact (Some (mockRatesAt (7 / 10))) ''52000'' (Fin 5) DirectToDest =
       Inr \<lparr>source_out = Fin 9, direct_to_dest = Fin 5, fa_added = Fin 4, eligible = True\<rparr>
   \<and> fa_rate (mockRatesAt (7 / 10)) =
       Some \<lparr>rate = Some (Fin (3152519739159347 / 4503599627370496))\<rparr>
   \<and> round ((5::rat) * (3152519739159347 / 4503599627370496)) = 3"
proof -
  have "faRateForDest ''52000'' (Some (mockRatesAt (145 / 1000)))
      = Fin (5224175567749775 / 36028797018963968)"
    unfolding mockRatesAt_rate double_145 ..
  then have "computeTransferImpact (Some (mockRatesAt (145 / 1000))) ''52000'' (Fin 100)
      DirectToDest =
     Inr \<lparr>source_out = Fin 114, direct_to_dest = Fin 100, fa_added = Fin 14, eligible = True\<rparr>"
    by (simp add: computeTransferImpact_def Let_def mockRatesAt_eligible mulRate_145)
  moreover have "faRateForDest ''52000'' (Some (mockRatesAt (7 / 10)))
      = Fin (3152519739159347 / 4503599627370496)"
    unfolding mockRatesAt_rate double_7 ..
  then have "computeTransferImpact (Some (mockRatesAt (7 / 10))) ''52000'' (Fin 5) DirectToDest =
     Inr \<lparr>source_out = Fin 9, direct_to_dest = Fin 5, fa_added = Fin 4, eligible = True\<rparr>"
    by (simp add: computeTransferImpact_def Let_def mockRatesAt_eligible mulRate_7)
  moreover have "fa_rate (mockRatesAt (7 / 10)) =
      Some \<lparr>rate = Some (Fin (3152519739159347 / 4503599627370496))\<rparr>"
    unfolding mockRatesAt_def double_7 by simp
  moreover have "round ((100::rat) * (145 / 1000)) = 15"
    "round ((5::rat) * (3152519739159347 / 4503599627370496)) = 3"
    by (simp_all add: round_def floor_numeral_fraction)
  ultimately show ?thesis by blast
qed

text \<open>
  Claim C6. An amount that is not positive or not finite is to be refused. The only check
  of the code on the amount is \<open>amountCents <= 0\<close>, under the message that the amount must
  be greater than zero: the call fails exactly for the amounts that compare below or equal
  to zero, which are the finite amounts that are zero or negative and \<open>-Infinity\<close>. Every
  positive finite integer gives a split; so do \<open>NaN\<close> and \<open>Infinity\<close>, for which the
  comparison is false and which the code therefore does not refuse.
\<close>

theorem computeTransferImpact_amount_check:
  "(computeTransferImpact pol dest amt mode = Inl InvalidAmount
      \<longleftrightarrow> amt = NInf \<or> (\<exists>a. amt = Fin a \<and> a \<le> 0))
   \<and> ((\<exists>imp. computeTransferImpact pol dest amt mode = Inr imp)
      \<longleftrightarrow> amt = NaN \<or> amt = PInf \<or> (\<exists>a. amt = Fin a \<and> 0 < a))"
  by (cases amt; cases mode) (auto simp add: computeTransferImpact_def Let_def)

theorem computeTransferImpact_amount_check_witness:
  "computeTransferImpact (Some mockRates) ''52000'' (Fin 0) BudgetTotal = Inl InvalidAmount
   \<and> computeTransferImpact (Some mockRates) ''52000'' NInf DirectToDest = Inl InvalidAmount
   \<and> (\<exists>imp. computeTransferImpact (Some mockRates) ''52000'' (Fin 1) DirectToDest = Inr imp)
   \<and> (\<exists>imp. computeTransferImpact (Some mockRates) ''52000'' NaN BudgetTotal = Inr imp)
   \<and> (\<exists>imp. computeTransferImpact (Some mockRates) ''52000'' PInf BudgetTotal = Inr imp)"
  using computeTransferImpact_amount_check [of "Some mockRates" "''52000''" "Fin 0" BudgetTotal]
    computeTransferImpact_amount_check [of "Some mockRates" "''52000''" NInf DirectToDest]
    computeTransferImpact_amount_check [of "Some mockRates" "''52000''" "Fin 1" DirectToDest]
    computeTransferImpact_amount_check [of "Some mockRates" "''52000''" NaN BudgetTotal]
    computeTransferImpact_amount_check [of "Some mockRates" "''52000''" PInf BudgetTotal]
  by simp

text \<open>
  The split that a \<open>NaN\<close> amount gives on the sample policy: every amount of it is \<open>NaN\<close>.
\<close>

lemma computeTransferImpact_NaN:
  "computeTransferImpact (Some mockRates) ''52000'' NaN BudgetTotal =
     Inr \<lparr>source_out = NaN, direct_to_dest = NaN, fa_added = NaN, eligible = True\<rparr>"
  by (simp add: computeTransferImpact_def Let_def mock_eligible mock_rate divByOnePlus_def
      num_sub_def)

section \<open>Properties of the ledger\<close>

lemma find_pos_None: "find_pos a rs = None \<longleftrightarrow> a \<notin> account ` set rs"
  by (induction rs) auto

lemma find_pos_Some:
  "find_pos a rs = Some k \<Longrightarrow> k < length rs \<and> account (rs ! k) = a \<and> find_row a rs = Some (rs ! k)"
  by (induction rs arbitrary: k) (auto simp add: find_row_def split: if_splits)

lemma find_pos_append_left:
  "find_pos a rs = Some k \<Longrightarrow> find_pos a (rs @ ys) = Some k"
  by (induction rs arbitrary: k) (auto split: if_splits)

lemma find_pos_append_other:
  "a \<noteq> account y \<Longrightarrow> find_pos a (rs @ [y]) = find_pos a rs"
  by (induction rs) auto

lemma find_pos_fresh_end:
  "find_pos a rs = None \<Longrightarrow> find_pos a (rs @ [newFandaRow a]) = Some (length rs)"
  by (induction rs) (auto simp add: newFandaRow_def split: if_splits)

text \<open>The working rows, seen from an account that is not the indirect-cost account.\<close>

lemma workingRows_cases:
  "(find_pos F (without_summary base) = None
      \<and> workingRows F base = (without_summary base @ [newFandaRow F], length (without_summary base)))
   \<or> (\<exists>k. find_pos F (without_summary base) = Some k
      \<and> workingRows F base = (without_summary base, k))"
  by (cases "find_pos F (without_summary base)") (simp_all add: workingRows_def Let_def)

lemma workingRows_find_other:
  assumes "a \<noteq> F"
  shows "find_pos a (fst (workingRows F base)) = find_pos a (without_summary base)"
  using workingRows_cases [of F base] assms
  by (auto simp add: find_pos_append_other newFandaRow_def)

lemma workingRows_nth_other:
  assumes "find_pos a (without_summary base) = Some i"
  shows "fst (workingRows F base) ! i = without_summary base ! i"
  using workingRows_cases [of F base] find_pos_Some [OF assms]
  by (auto simp add: nth_append)

lemma workingRows_fanda:
  "workingRows F base = (rows, k) \<Longrightarrow> k < length rows \<and> account (rows ! k) = F"
  using workingRows_cases [of F base] 
  by (auto simp add: newFandaRow_def dest: find_pos_Some)

text \<open>Facts of the sample data.\<close>

lemma mock_without_summary: "without_summary mockBudget = mockBudget"
  by (simp add: without_summary_def mockBudget_def)

lemma mock_fanda: "fandaAcct (Some mockRates) = ''58960''"
  by (simp add: fandaAcct_def mockRates_def)

lemma mock_eligible_salary: "isMtdcEligible ''51110'' (Some mockRates)"
  by (simp add: isMtdcEligible_def fandaAcct_def mockRates_def)

lemma mock_impact:
  "computeTransferImpact (Some mockRates) ''51110'' (Fin 6000000) BudgetTotal =
     Inr \<lparr>source_out = Fin 6000000, direct_to_dest = Fin 4702194, fa_added = Fin 1297806,
          eligible = True\<rparr>"
  by (simp add: computeTransferImpact_def Let_def mock_eligible_salary mock_rate
      mock_divByOnePlus num_sub_def)



text \<open>\<open>applyOne\<close> once the accounts are accepted and the impact is computed.\<close>

lemma applyOne_after_checks:
  assumes "fromAcct \<noteq> fandaAcct pol" and "toAcct \<noteq> fandaAcct pol" and "fromAcct \<noteq> toAcct"
    and "workingRows (fandaAcct pol) base = (rows, k)"
    and "find_pos fromAcct rows = Some i" and "find_pos toAcct rows = Some j"
    and "computeTransferImpact pol toAcct amt mode = Inr imp"
  shows "applyOne pol base snap fromAcct toAcct amt mode =
     (let fromAfter = num_sub (toCents (Num (proposed_budget (rows ! i)))) (source_out imp);
          posted = map set_change
            (credit k (Number_of (fromCents (fa_added imp)))
              (credit j (Number_of (fromCents (direct_to_dest imp)))
                (debit i (Number_of (fromCents (source_out imp))) rows)))
      in if num_lt fromAfter (toCents (Num (encumbrancesFor fromAcct snap)))
           then Inl (EncumbranceBreach fromAcct)
         else if num_lt fromAfter (Fin 0) then Inl (NegativeBalance fromAcct)
         else if strict_neq (baselineSum base) (baselineSum posted) then Inl ReconciliationFailure
         else Inr (posted,
                \<lparr>map_from = fromAcct, map_to = toAcct, source_out_cents = source_out imp,
                 direct_to_dest_cents = direct_to_dest imp,
                 fa_added_to_fanda_cents = fa_added imp,
                 dest_mtdc_eligible = eligible imp, map_mode = mode\<rparr>))"
  using assms by (simp add: applyOne_def Let_def)

lemma applyOne_success:
  assumes "applyOne pol base snap fromAcct toAcct amt mode = Inr (out, logRow)"
  obtains rows k i j imp where
    "fromAcct \<noteq> fandaAcct pol" and "toAcct \<noteq> fandaAcct pol" and "fromAcct \<noteq> toAcct"
    and "workingRows (fandaAcct pol) base = (rows, k)"
    and "find_pos fromAcct rows = Some i" and "find_pos toAcct rows = Some j"
    and "computeTransferImpact pol toAcct amt mode = Inr imp"
    and "out = map set_change
            (credit k (Number_of (fromCents (fa_added imp)))
              (credit j (Number_of (fromCents (direct_to_dest imp)))
                (debit i (Number_of (fromCents (source_out imp))) rows)))"
    and "\<not> strict_neq (baselineSum base) (baselineSum out)"
    and "logRow =
           \<lparr>map_from = fromAcct, map_to = toAcct, source_out_cents = source_out imp,
            direct_to_dest_cents = direct_to_dest imp,
            fa_added_to_fanda_cents = fa_added imp,
            dest_mtdc_eligible = eligible imp, map_mode = mode\<rparr>"
proof -
  obtain rows k where w: "workingRows (fandaAcct pol) base = (rows, k)"
    by (cases "workingRows (fandaAcct pol) base")
  from assms have ne: "fromAcct \<noteq> fandaAcct pol" "toAcct \<noteq> fandaAcct pol"
    by (auto simp add: applyOne_def Let_def split: if_splits)
  from assms ne w obtain i where i: "find_pos fromAcct rows = Some i"
    by (cases "find_pos fromAcct rows") (auto simp add: applyOne_def Let_def)
  from assms ne w i obtain j where j: "find_pos toAcct rows = Some j"
    by (cases "find_pos toAcct rows") (auto simp add: applyOne_def Let_def)
  from assms ne w i j have neq: "fromAcct \<noteq> toAcct"
    by (auto simp add: applyOne_def Let_def split: if_splits)
  from assms ne w i j neq obtain imp where imp: "computeTransferImpact pol toAcct amt mode = Inr imp"
    by (cases "computeTransferImpact pol toAcct amt mode") (auto simp add: applyOne_def Let_def)
  note eq = applyOne_after_checks [OF ne neq w i j imp, of snap]
  from assms have "out = map set_change
            (credit k (Number_of (fromCents (fa_added imp)))
              (credit j (Number_of (fromCents (direct_to_dest imp)))
                (debit i (Number_of (fromCents (source_out imp))) rows)))"
    and "\<not> strict_neq (baselineSum base) (baselineSum out)"
    and "logRow =
           \<lparr>map_from = fromAcct, map_to = toAcct, source_out_cents = source_out imp,
            direct_to_dest_cents = direct_to_dest imp,
            fa_added_to_fanda_cents = fa_added imp,
            dest_mtdc_eligible = eligible imp, map_mode = mode\<rparr>"
    unfolding eq by (auto simp add: Let_def split: if_splits)
  with ne neq w i j imp show thesis
    by (rule that)
qed

lemma find_row_None: "find_row a rs = None \<longleftrightarrow> a \<notin> account ` set rs"
  by (auto simp add: find_row_def find_None_iff)

lemma toCents_zero: "toCents (Num (Fin 0)) = Fin 0"
  by (simp add: toCents_Num_Fin floor_numeral_fraction)

lemma mock_accounts: "account ` set mockBudget = {''53800'', ''51110'', ''52000'', ''58960''}"
  by (simp add: mockBudget_def)

lemma mock_source_row: "find_row ''53800'' mockBudget = Some (hd mockBudget)"
  by (simp add: find_row_def mockBudget_def)

lemma mock_source_balance: "toCents (Num (proposed_budget (hd mockBudget))) = Fin 5000000"
  by (simp add: mockBudget_def toCents_Num_Fin floor_numeral_fraction)

lemma mock_impact_small:
  "computeTransferImpact (Some mockRates) ''51110'' (Fin 100) BudgetTotal =
     Inr \<lparr>source_out = Fin 100, direct_to_dest = Fin 78, fa_added = Fin 22, eligible = True\<rparr>"
  by (simp add: computeTransferImpact_def Let_def mock_eligible_salary mock_rate
      mock_divByOnePlus num_sub_def)

text \<open>Posting changes the proposed budget and the change of a row, and nothing else.\<close>

lemma map_update_nth: "(map f rs)[k := f (rs ! k)] = map f rs"
  by (induction rs arbitrary: k) (auto split: nat.splits)

lemma credit_keeps:
  "map account (credit k d rs) = map account rs"
  "map current_budget (credit k d rs) = map current_budget rs"
  "map description (credit k d rs) = map description rs"
  "length (credit k d rs) = length rs"
  unfolding credit_def by (simp_all add: map_update map_update_nth)

lemma debit_keeps:
  "map account (debit k d rs) = map account rs"
  "map current_budget (debit k d rs) = map current_budget rs"
  "map description (debit k d rs) = map description rs"
  "length (debit k d rs) = length rs"
  unfolding debit_def by (simp_all add: map_update map_update_nth)

lemma set_change_keeps:
  "map account (map set_change rs) = map account rs"
  "map current_budget (map set_change rs) = map current_budget rs"
  "map description (map set_change rs) = map description rs"
  by (simp_all add: set_change_def comp_def)

text \<open>The total of the baseline reads the account and the current budget of a row only.\<close>

lemma baselineSum_cong:
  assumes "map account xs = map account ys" and "map current_budget xs = map current_budget ys"
  shows "baselineSum xs = baselineSum ys"
proof -
  have "map (\<lambda>r. toCents (Num (current_budget r))) (without_summary xs)
      = map (\<lambda>r. toCents (Num (current_budget r))) (without_summary ys)"
    using assms
  proof (induction xs arbitrary: ys)
    case Nil
    then show ?case by simp
  next
    case (Cons x xs)
    then obtain y ys' where ys: "ys = y # ys'" by (cases ys) auto
    with Cons.prems have "account x = account y" "current_budget x = current_budget y"
      "map account xs = map account ys'" "map current_budget xs = map current_budget ys'"
      by simp_all
    with Cons.IH [of ys'] ys show ?case
      by (simp add: without_summary_def)
  qed
  then show ?thesis by (simp add: baselineSum_def)
qed

lemma baselineSum_posted:
  "baselineSum (map set_change (credit k a (credit j b (debit i c rows)))) = baselineSum rows"
  by (rule baselineSum_cong) (simp_all only: set_change_keeps credit_keeps debit_keeps)

lemma num_add_zero: "num_add x (Fin 0) = x"
  by (cases x) simp_all

lemma sum_cents_snoc: "sum_cents (xs @ [y]) = num_add (sum_cents xs) y"
  by (simp add: sum_cents_def)

lemma without_summary_idem: "without_summary (without_summary rs) = without_summary rs"
  by (simp add: without_summary_def)

lemma baselineSum_working:
  assumes "workingRows F base = (rows, k)"
  shows "baselineSum rows = baselineSum base"
proof -
  from workingRows_cases [of F base] assms
  have "rows = without_summary base \<or> rows = without_summary base @ [newFandaRow F]"
    by auto
  then show ?thesis
  proof
    assume "rows = without_summary base"
    then show ?thesis by (simp add: baselineSum_def without_summary_idem)
  next
    assume r: "rows = without_summary base @ [newFandaRow F]"
    have "without_summary rows = without_summary base
        @ (if F = ''SUMMARY'' then [] else [newFandaRow F])"
      using r without_summary_idem [of base]
      by (simp add: without_summary_def newFandaRow_def)
    then show ?thesis
      by (simp add: baselineSum_def sum_cents_snoc newFandaRow_def toCents_zero num_add_zero)
  qed
qed

text \<open>The total is a number unless a current budget is \<open>-Infinity\<close>.\<close>

lemma toCents_Num_finite: "x \<noteq> NInf \<Longrightarrow> \<exists>v. toCents (Num x) = Fin v"
  by (cases x) (simp_all add: toCents_Num_Fin toCents_Num_special)

lemma foldl_num_add_finite:
  "(\<And>x. x \<in> set xs \<Longrightarrow> \<exists>v. x = Fin v) \<Longrightarrow> \<exists>v. foldl num_add (Fin a) xs = Fin v"
proof (induction xs arbitrary: a)
  case Nil
  then show ?case by simp
next
  case (Cons x xs)
  then obtain v where "x = Fin v" by auto
  with Cons show ?case by simp
qed

lemma baselineSum_finite:
  assumes "\<And>r. r \<in> set base \<Longrightarrow> account r \<noteq> ''SUMMARY'' \<Longrightarrow> current_budget r \<noteq> NInf"
  shows "\<exists>v. baselineSum base = Fin v"
  unfolding baselineSum_def sum_cents_def
  by (rule foldl_num_add_finite) (use assms toCents_Num_finite in \<open>auto simp add: without_summary_def\<close>)

lemma computeTransferImpact_error:
  "computeTransferImpact pol dest amt mode = Inl e \<Longrightarrow> e = InvalidAmount"
  by (cases mode) (auto simp add: computeTransferImpact_def Let_def split: if_splits)

lemma applyOne_reconciliation:
  assumes "applyOne pol base snap fromAcct toAcct amt mode = Inl ReconciliationFailure"
  shows "baselineSum base = NaN"
proof -
  obtain rows k where w: "workingRows (fandaAcct pol) base = (rows, k)"
    by (cases "workingRows (fandaAcct pol) base")
  from assms have ne: "fromAcct \<noteq> fandaAcct pol" "toAcct \<noteq> fandaAcct pol"
    by (auto simp add: applyOne_def Let_def split: if_splits)
  from assms ne w obtain i where i: "find_pos fromAcct rows = Some i"
    by (cases "find_pos fromAcct rows") (auto simp add: applyOne_def Let_def)
  from assms ne w i obtain j where j: "find_pos toAcct rows = Some j"
    by (cases "find_pos toAcct rows") (auto simp add: applyOne_def Let_def)
  from assms ne w i j have neq: "fromAcct \<noteq> toAcct"
    by (auto simp add: applyOne_def Let_def split: if_splits)
  from assms ne w i j neq obtain imp where imp: "computeTransferImpact pol toAcct amt mode = Inr imp"
    by (cases "computeTransferImpact pol toAcct amt mode")
      (auto simp add: applyOne_def Let_def dest: computeTransferImpact_error)
  note eq = applyOne_after_checks [OF ne neq w i j imp, of snap]
  from assms have "strict_neq (baselineSum base) (baselineSum base)"
    unfolding eq
    by (auto simp add: Let_def baselineSum_posted baselineSum_working [OF w] split: if_splits)
  then show ?thesis by (simp add: strict_neq_def)
qed

lemma applyOne_conserves:
  assumes "applyOne pol base snap fromAcct toAcct amt mode = Inr (out, logRow)"
  shows "baselineSum out = baselineSum base"
  using assms
  by (elim applyOne_success) (simp add: baselineSum_posted baselineSum_working)

lemma project_loop_conserves:
  "project_loop pol snap working logs ts = Inr (final, logs') \<Longrightarrow>
     baselineSum final = baselineSum working"
proof (induction ts arbitrary: working logs)
  case Nil
  then show ?case by simp
next
  case (Cons t ts)
  then obtain rows logRow where
    step: "applyOne pol working snap (item_from t) (item_to t) (amount_cents t) (item_mode t)
             = Inr (rows, logRow)"
    and rest: "project_loop pol snap rows (logs @ [logRow]) ts = Inr (final, logs')"
    by (auto split: sum.splits)
  from Cons.IH [OF rest] applyOne_conserves [OF step] show ?case by simp
qed

lemma project_loop_reconciles:
  "baselineSum working \<noteq> NaN \<Longrightarrow>
     project_loop pol snap working logs ts \<noteq> Inl ReconciliationFailure"
proof (induction ts arbitrary: working logs)
  case Nil
  then show ?case by simp
next
  case (Cons t ts)
  show ?case
  proof (cases "applyOne pol working snap (item_from t) (item_to t) (amount_cents t) (item_mode t)")
    case (Inl e)
    with Cons.prems applyOne_reconciliation [of pol working snap "item_from t" "item_to t"
        "amount_cents t" "item_mode t"]
    show ?thesis by auto
  next
    case (Inr res)
    obtain rows logRow where res: "res = (rows, logRow)" by (cases res)
    with Inr Cons.prems applyOne_conserves [of pol working snap "item_from t" "item_to t"
        "amount_cents t" "item_mode t" rows logRow]
    have "baselineSum rows \<noteq> NaN" by simp
    from Cons.IH [OF this] Inr res show ?thesis by simp
  qed
qed

text \<open>
  Claim C1. The total that the engine reconciles is the sum of the cents of the current
  budgets of the rows other than the summary row. Whenever \<open>projectWithTransfers\<close> or
  \<open>applyOne\<close> succeeds, the rows returned have the total of the rows given. The
  reconciliation check of \<open>applyOne\<close> cannot fail, alone or in a batch, on a baseline in
  which no such row has the current budget \<open>-Infinity\<close>. That one value \<open>toCents\<close> reads as
  \<open>NaN\<close>, where it reads \<open>NaN\<close> and \<open>Infinity\<close> as zero: the total is then \<open>NaN\<close>, which
  differs from itself, and the check fails (lemma \<open>reconciliation_fails\<close> below).
\<close>

theorem conservation:
  "(projectWithTransfers pol base snap ts = Inr (final, logs) \<longrightarrow>
      baselineSum final = baselineSum base)
   \<and> (applyOne pol base snap fromAcct toAcct amt mode = Inr (out, logRow) \<longrightarrow>
      baselineSum out = baselineSum base)
   \<and> ((\<forall>r \<in> set base. account r \<noteq> ''SUMMARY'' \<longrightarrow> current_budget r \<noteq> NInf) \<longrightarrow>
      applyOne pol base snap fromAcct toAcct amt mode \<noteq> Inl ReconciliationFailure
      \<and> projectWithTransfers pol base snap ts \<noteq> Inl ReconciliationFailure)"
proof (intro conjI impI)
  assume "projectWithTransfers pol base snap ts = Inr (final, logs)"
  then show "baselineSum final = baselineSum base"
    by (simp add: projectWithTransfers_def project_loop_conserves)
next
  assume "applyOne pol base snap fromAcct toAcct amt mode = Inr (out, logRow)"
  then show "baselineSum out = baselineSum base"
    by (rule applyOne_conserves)
next
  assume "\<forall>r \<in> set base. account r \<noteq> ''SUMMARY'' \<longrightarrow> current_budget r \<noteq> NInf"
  then have fin: "baselineSum base \<noteq> NaN"
    using baselineSum_finite [of base] by auto
  then show "applyOne pol base snap fromAcct toAcct amt mode \<noteq> Inl ReconciliationFailure"
    using applyOne_reconciliation by blast
  from fin show "projectWithTransfers pol base snap ts \<noteq> Inl ReconciliationFailure"
    by (simp add: projectWithTransfers_def project_loop_reconciles)
qed

lemma mock_working: "workingRows ''58960'' mockBudget = (mockBudget, Suc (Suc (Suc 0)))"
  by (simp add: workingRows_def mock_without_summary Let_def) (simp add: mockBudget_def)

lemma mock_positions:
  "find_pos ''53800'' mockBudget = Some 0"
  "find_pos ''52000'' mockBudget = Some (Suc (Suc 0))"
  by (simp_all add: mockBudget_def)

lemma mock_impact_direct:
  "computeTransferImpact (Some mockRates) ''52000'' (Fin 1000000) DirectToDest =
     Inr \<lparr>source_out = Fin 1276000, direct_to_dest = Fin 1000000, fa_added = Fin 276000,
          eligible = True\<rparr>"
  by (simp add: computeTransferImpact_def Let_def mock_eligible mock_rate mock_mulRate)

lemma mock_total: "baselineSum mockBudget = Fin 10000000"
  by (simp add: baselineSum_def mock_without_summary sum_cents_def)
     (simp add: mockBudget_def toCents_Num_Fin floor_numeral_fraction)

lemma mock_applyOne:
  "applyOne (Some mockRates) mockBudget mockBudget ''53800'' ''52000'' (Fin 1000000) DirectToDest =
     Inr (mockPosted, mockLog)"
proof -
  have ne: "''53800'' \<noteq> fandaAcct (Some mockRates)" "''52000'' \<noteq> fandaAcct (Some mockRates)"
    "''53800'' \<noteq> ''52000''"
    by (simp_all add: mock_fanda)
  have w: "workingRows (fandaAcct (Some mockRates)) mockBudget = (mockBudget, Suc (Suc (Suc 0)))"
    by (simp add: mock_fanda mock_working)
  note eq = applyOne_after_checks [OF ne w mock_positions mock_impact_direct, of mockBudget]
  have enc: "toCents (Num (encumbrancesFor ''53800'' mockBudget)) = Fin 0"
    by (simp add: mockBudget_def encumbrancesFor_def find_row_def toCents_zero)
  have bal: "toCents (Num (proposed_budget (mockBudget ! 0))) = Fin 5000000"
    by (simp add: mockBudget_def toCents_Num_Fin floor_numeral_fraction)
  have tot: "\<not> strict_neq (baselineSum mockBudget) (baselineSum mockBudget)"
    by (simp add: strict_neq_def mock_total)
  show ?thesis
    unfolding eq Let_def baselineSum_posted
    using tot
    by (simp add: enc bal num_sub_def Number_of_fromCents)
       (simp add: mockBudget_def mockPosted_def mockLog_def credit_def debit_def set_change_def
          num_sub_def)
qed

lemma mock_project:
  "projectWithTransfers (Some mockRates) mockBudget mockBudget [mockTransfer]
     = Inr (mockPosted, [mockLog])"
  by (simp add: projectWithTransfers_def mockTransfer_def mock_applyOne)

lemma mock_no_NInf:
  "\<forall>r \<in> set mockBudget. account r \<noteq> ''SUMMARY'' \<longrightarrow> current_budget r \<noteq> NInf"
  by (simp add: mockBudget_def)

text \<open>
  On a baseline with a current budget of \<open>-Infinity\<close> the reconciliation check fails,
  although every earlier check passes and no row is given another current budget.
\<close>

lemma reconciliation_fails:
  "applyOne (Some mockRates) unboundedBudget mockBudget ''53800'' ''52000'' (Fin 1000000)
     DirectToDest = Inl ReconciliationFailure"
proof -
  have ne: "''53800'' \<noteq> fandaAcct (Some mockRates)" "''52000'' \<noteq> fandaAcct (Some mockRates)"
    "''53800'' \<noteq> ''52000''"
    by (simp_all add: mock_fanda)
  have w: "workingRows (fandaAcct (Some mockRates)) unboundedBudget
      = (unboundedBudget, Suc (Suc (Suc 0)))"
    by (simp add: mock_fanda workingRows_def Let_def without_summary_def unboundedBudget_def
        mockBudget_def)
  have pos: "find_pos ''53800'' unboundedBudget = Some 0"
    "find_pos ''52000'' unboundedBudget = Some (Suc (Suc 0))"
    by (simp_all add: unboundedBudget_def mockBudget_def)
  note eq = applyOne_after_checks [OF ne w pos mock_impact_direct, of mockBudget]
  have enc: "toCents (Num (encumbrancesFor ''53800'' mockBudget)) = Fin 0"
    by (simp add: mockBudget_def encumbrancesFor_def find_row_def toCents_zero)
  have bal: "toCents (Num (proposed_budget (unboundedBudget ! 0))) = Fin 5000000"
    by (simp add: unboundedBudget_def mockBudget_def toCents_Num_Fin floor_numeral_fraction)
  have tot: "baselineSum unboundedBudget = NaN"
    by (simp add: baselineSum_def sum_cents_def without_summary_def unboundedBudget_def
        mockBudget_def toCents_Num_Fin toCents_Num_special floor_numeral_fraction)
  show ?thesis
    unfolding eq Let_def baselineSum_posted
    by (simp add: enc bal tot num_sub_def strict_neq_def)
qed

theorem conservation_witness:
  "projectWithTransfers (Some mockRates) mockBudget mockBudget [mockTransfer]
     = Inr (mockPosted, [mockLog])
   \<and> applyOne (Some mockRates) mockBudget mockBudget ''53800'' ''52000'' (Fin 1000000)
       DirectToDest = Inr (mockPosted, mockLog)
   \<and> baselineSum mockPosted = baselineSum mockBudget
   \<and> applyOne (Some mockRates) mockBudget mockBudget ''53800'' ''52000'' (Fin 1000000)
       DirectToDest \<noteq> Inl ReconciliationFailure
   \<and> projectWithTransfers (Some mockRates) mockBudget mockBudget [mockTransfer]
       \<noteq> Inl ReconciliationFailure
   \<and> applyOne (Some mockRates) unboundedBudget mockBudget ''53800'' ''52000'' (Fin 1000000)
       DirectToDest = Inl ReconciliationFailure"
  using conservation [of "Some mockRates" mockBudget mockBudget "[mockTransfer]" mockPosted
      "[mockLog]" "''53800''" "''52000''" "Fin 1000000" DirectToDest mockPosted mockLog]
    mock_project mock_applyOne mock_no_NInf reconciliation_fails
  by simp

text \<open>The accounts of the working rows.\<close>

lemma without_summary_accounts: "''SUMMARY'' \<notin> account ` set (without_summary rs)"
  by (auto simp add: without_summary_def)

lemma workingRows_accounts:
  assumes "workingRows F base = (rows, k)"
  shows "F \<in> account ` set rows"
    and "F \<noteq> ''SUMMARY'' \<Longrightarrow> ''SUMMARY'' \<notin> account ` set rows"
proof -
  from workingRows_fanda [OF assms] show "F \<in> account ` set rows"
    by (metis image_eqI nth_mem)
  assume "F \<noteq> ''SUMMARY''"
  with workingRows_cases [of F base] assms without_summary_accounts [of base]
  show "''SUMMARY'' \<notin> account ` set rows"
    by (auto simp add: newFandaRow_def)
qed

lemma posted_accounts:
  "account ` set (map set_change (credit k a (credit j b (debit i c rows)))) = account ` set rows"
proof -
  have "map account (map set_change (credit k a (credit j b (debit i c rows)))) = map account rows"
    by (simp only: set_change_keeps credit_keeps debit_keeps)
  then have "set (map account (map set_change (credit k a (credit j b (debit i c rows)))))
      = set (map account rows)"
    by (rule arg_cong)
  then show ?thesis by (simp only: set_map)
qed

lemma posted_length:
  "length (map set_change (credit k a (credit j b (debit i c rows)))) = length rows"
  by (simp add: credit_keeps debit_keeps)

lemma posted_fanda_row:
  assumes "k < length rows" and "i \<noteq> k" and "j \<noteq> k"
  shows "map set_change (credit k a (credit j b (debit i c rows))) ! k =
     set_change ((rows ! k)\<lparr>proposed_budget := num_add (proposed_budget (rows ! k)) a\<rparr>)"
  using assms by (simp add: credit_def debit_def)

lemma ineligible_adds_nothing:
  assumes "computeTransferImpact pol dest amt mode = Inr imp" and "\<not> isMtdcEligible dest pol"
  shows "fa_added imp = Fin 0"
  using assms by (cases mode) (auto simp add: computeTransferImpact_def Let_def split: if_splits)

text \<open>
  Claim C9, as the code has it. The rows that \<open>applyOne\<close> returns always hold a row of the
  designated indirect-cost account, and hold no row of the account \<open>SUMMARY\<close> unless that
  is the designated account itself. When the rows given (the summary row apart) have no
  row of the designated account, the row is pushed last: its description is \<open>F&A\<close>, its
  current budget is zero and its proposed budget is zero plus the indirect cost added by
  the transfer, which is zero for a destination that is not eligible.
\<close>

theorem applyOne_rows:
  assumes "applyOne pol base snap fromAcct toAcct amt mode = Inr (out, logRow)"
  shows "fandaAcct pol \<in> account ` set out
   \<and> (fandaAcct pol \<noteq> ''SUMMARY'' \<longrightarrow> ''SUMMARY'' \<notin> account ` set out)
   \<and> (fandaAcct pol \<notin> account ` set (without_summary base) \<longrightarrow>
        length out = Suc (length (without_summary base))
        \<and> account (last out) = fandaAcct pol
        \<and> description (last out) = ''F&A''
        \<and> current_budget (last out) = Fin 0
        \<and> proposed_budget (last out)
            = num_add (Fin 0) (Number_of (fromCents (fa_added_to_fanda_cents logRow)))
        \<and> (\<not> isMtdcEligible toAcct pol \<longrightarrow> proposed_budget (last out) = Fin 0))"
  using assms
proof (elim applyOne_success)
  fix rows k i j imp
  assume ne: "fromAcct \<noteq> fandaAcct pol" "toAcct \<noteq> fandaAcct pol"
    and w: "workingRows (fandaAcct pol) base = (rows, k)"
    and i: "find_pos fromAcct rows = Some i" and j: "find_pos toAcct rows = Some j"
    and imp: "computeTransferImpact pol toAcct amt mode = Inr imp"
    and out: "out = map set_change
            (credit k (Number_of (fromCents (fa_added imp)))
              (credit j (Number_of (fromCents (direct_to_dest imp)))
                (debit i (Number_of (fromCents (source_out imp))) rows)))"
    and lg: "logRow =
           \<lparr>map_from = fromAcct, map_to = toAcct, source_out_cents = source_out imp,
            direct_to_dest_cents = direct_to_dest imp,
            fa_added_to_fanda_cents = fa_added imp,
            dest_mtdc_eligible = eligible imp, map_mode = mode\<rparr>"
  have acc: "account ` set out = account ` set rows"
    unfolding out by (rule posted_accounts)
  have len: "length out = length rows"
    unfolding out by (rule posted_length)
  note k = workingRows_fanda [OF w]
  from find_pos_Some [OF i] find_pos_Some [OF j] k ne have ik: "i \<noteq> k" and jk: "j \<noteq> k"
    by auto
  have fr: "out ! k = set_change ((rows ! k)
      \<lparr>proposed_budget := num_add (proposed_budget (rows ! k))
         (Number_of (fromCents (fa_added imp)))\<rparr>)"
    unfolding out using k ik jk by (simp add: posted_fanda_row)
  show ?thesis
  proof (intro conjI impI)
    show "fandaAcct pol \<in> account ` set out"
      using workingRows_accounts(1) [OF w] acc by simp
    show "''SUMMARY'' \<notin> account ` set out" if "fandaAcct pol \<noteq> ''SUMMARY''"
      using workingRows_accounts(2) [OF w that] acc by simp
  next
    assume "fandaAcct pol \<notin> account ` set (without_summary base)"
    then have "find_pos (fandaAcct pol) (without_summary base) = None"
      by (simp add: find_pos_None)
    with workingRows_cases [of "fandaAcct pol" base] w
    have r: "rows = without_summary base @ [newFandaRow (fandaAcct pol)]"
      and kk: "k = length (without_summary base)"
      by auto
    from r len show l: "length out = Suc (length (without_summary base))" by simp
    from l have ne_out: "out \<noteq> []" by auto
    from l kk have "length out - 1 = k" by simp
    with last_conv_nth [OF ne_out] have "last out = out ! k" by simp
    moreover from r kk have "rows ! k = newFandaRow (fandaAcct pol)" by simp
    ultimately have lo: "last out = set_change ((newFandaRow (fandaAcct pol))
      \<lparr>proposed_budget := num_add (Fin 0) (Number_of (fromCents (fa_added imp)))\<rparr>)"
      using fr by (simp add: newFandaRow_def)
    then show "account (last out) = fandaAcct pol" and "description (last out) = ''F&A''"
      and "current_budget (last out) = Fin 0"
      and pb: "proposed_budget (last out)
            = num_add (Fin 0) (Number_of (fromCents (fa_added_to_fanda_cents logRow)))"
      by (simp_all add: set_change_def newFandaRow_def lg)
    assume "\<not> isMtdcEligible toAcct pol"
    with imp have "fa_added imp = Fin 0" by (rule ineligible_adds_nothing)
    with pb lg show "proposed_budget (last out) = Fin 0"
      by (simp add: Number_of_fromCents)
  qed
qed

lemma summarised_applyOne:
  "applyOne (Some mockRates) summarisedBudget [] ''52000'' ''53800'' (Fin 100000) DirectToDest
     = Inr (summarisedPosted, summarisedLog)"
proof -
  have ne: "''52000'' \<noteq> fandaAcct (Some mockRates)" "''53800'' \<noteq> fandaAcct (Some mockRates)"
    "''52000'' \<noteq> ''53800''"
    by (simp_all add: mock_fanda)
  have ws: "without_summary summarisedBudget = tl summarisedBudget"
    by (simp add: without_summary_def summarisedBudget_def)
  have w: "workingRows (fandaAcct (Some mockRates)) summarisedBudget
      = (tl summarisedBudget @ [newFandaRow ''58960''], Suc (Suc 0))"
    by (simp add: mock_fanda workingRows_def Let_def ws) (simp add: summarisedBudget_def)
  have pos: "find_pos ''52000'' (tl summarisedBudget @ [newFandaRow ''58960'']) = Some (Suc 0)"
    "find_pos ''53800'' (tl summarisedBudget @ [newFandaRow ''58960'']) = Some 0"
    by (simp_all add: summarisedBudget_def)
  have imp: "computeTransferImpact (Some mockRates) ''53800'' (Fin 100000) DirectToDest =
     Inr \<lparr>source_out = Fin 100000, direct_to_dest = Fin 100000, fa_added = Fin 0,
          eligible = False\<rparr>"
    by (simp add: computeTransferImpact_def Let_def mock_ineligible)
  note eq = applyOne_after_checks [OF ne w pos imp, of "[]"]
  have enc: "toCents (Num (encumbrancesFor ''52000'' [])) = Fin 0"
    by (simp add: encumbrancesFor_def find_row_def toCents_zero)
  have bal: "toCents (Num (proposed_budget ((tl summarisedBudget @ [newFandaRow ''58960'']) ! Suc 0)))
      = Fin 2000000"
    by (simp add: summarisedBudget_def toCents_Num_Fin floor_numeral_fraction)
  have tot: "baselineSum summarisedBudget = Fin 7000000"
    by (simp add: baselineSum_def ws sum_cents_def)
       (simp add: summarisedBudget_def toCents_Num_Fin floor_numeral_fraction)
  show ?thesis
    unfolding eq Let_def baselineSum_posted baselineSum_working [OF w]
    by (simp add: enc bal tot strict_neq_def num_sub_def Number_of_fromCents)
       (simp add: summarisedBudget_def summarisedPosted_def summarisedLog_def newFandaRow_def
          credit_def debit_def set_change_def num_sub_def)
qed

theorem applyOne_rows_witness:
  "applyOne (Some mockRates) summarisedBudget [] ''52000'' ''53800'' (Fin 100000) DirectToDest
     = Inr (summarisedPosted, summarisedLog)
   \<and> ''58960'' \<in> account ` set summarisedPosted
   \<and> ''SUMMARY'' \<notin> account ` set summarisedPosted
   \<and> length summarisedPosted = 3
   \<and> account (last summarisedPosted) = ''58960''
   \<and> description (last summarisedPosted) = ''F&A''
   \<and> current_budget (last summarisedPosted) = Fin 0
   \<and> proposed_budget (last summarisedPosted) = Fin 0"
proof -
  have "fandaAcct (Some mockRates) \<noteq> ''SUMMARY''"
    by (simp add: mock_fanda)
  moreover have "fandaAcct (Some mockRates) \<notin> account ` set (without_summary summarisedBudget)"
    by (simp add: mock_fanda without_summary_def summarisedBudget_def)
  moreover have "length (without_summary summarisedBudget) = 2"
    by (simp add: without_summary_def summarisedBudget_def)
  ultimately show ?thesis
    using applyOne_rows [OF summarised_applyOne] summarised_applyOne mock_ineligible
    by (auto simp add: mock_fanda)
qed

text \<open>
  Under a policy that designates the account \<open>SUMMARY\<close>, the rows returned hold a row of
  that account.
\<close>

theorem summary_row_counterexample:
  "applyOne (Some summaryRates) mockBudget mockBudget ''53800'' ''52000'' (Fin 1000000)
     DirectToDest = Inr (summaryPosted, mockLog)
   \<and> ''SUMMARY'' \<in> account ` set summaryPosted"
proof -
  have fanda: "fandaAcct (Some summaryRates) = ''SUMMARY''"
    by (simp add: fandaAcct_def summaryRates_def)
  have ne: "''53800'' \<noteq> fandaAcct (Some summaryRates)" "''52000'' \<noteq> fandaAcct (Some summaryRates)"
    "''53800'' \<noteq> ''52000''"
    by (simp_all add: fanda)
  have w: "workingRows (fandaAcct (Some summaryRates)) mockBudget
      = (mockBudget @ [newFandaRow ''SUMMARY''], Suc (Suc (Suc (Suc 0))))"
    by (simp add: fanda workingRows_def Let_def mock_without_summary) (simp add: mockBudget_def)
  have pos: "find_pos ''53800'' (mockBudget @ [newFandaRow ''SUMMARY'']) = Some 0"
    "find_pos ''52000'' (mockBudget @ [newFandaRow ''SUMMARY'']) = Some (Suc (Suc 0))"
    by (simp_all add: mockBudget_def)
  have imp: "computeTransferImpact (Some summaryRates) ''52000'' (Fin 1000000) DirectToDest =
     Inr \<lparr>source_out = Fin 1276000, direct_to_dest = Fin 1000000, fa_added = Fin 276000,
          eligible = True\<rparr>"
  proof -
    have "isMtdcEligible ''52000'' (Some summaryRates)"
      by (simp add: isMtdcEligible_def fandaAcct_def summaryRates_def mockRates_def)
    moreover have "faRateForDest ''52000'' (Some summaryRates)
        = Fin (1242993497154257 / 4503599627370496)"
      using mock_fa_rate by (simp add: faRateForDest_def summaryRates_def)
    ultimately show ?thesis
      by (simp add: computeTransferImpact_def Let_def mock_mulRate)
  qed
  note eq = applyOne_after_checks [OF ne w pos imp, of mockBudget]
  have enc: "toCents (Num (encumbrancesFor ''53800'' mockBudget)) = Fin 0"
    by (simp add: mockBudget_def encumbrancesFor_def find_row_def toCents_zero)
  have bal: "toCents (Num (proposed_budget ((mockBudget @ [newFandaRow ''SUMMARY'']) ! 0)))
      = Fin 5000000"
    by (simp add: mockBudget_def toCents_Num_Fin floor_numeral_fraction)
  have "applyOne (Some summaryRates) mockBudget mockBudget ''53800'' ''52000'' (Fin 1000000)
     DirectToDest = Inr (summaryPosted, mockLog)"
    unfolding eq Let_def baselineSum_posted baselineSum_working [OF w]
    by (simp add: enc bal mock_total strict_neq_def num_sub_def Number_of_fromCents)
       (simp add: mockBudget_def summaryPosted_def mockLog_def newFandaRow_def
          credit_def debit_def set_change_def num_sub_def)
  then show ?thesis
    by (simp add: summaryPosted_def)
qed


section \<open>Properties of the balance checks\<close>

text \<open>
  \<open>toCents\<close> reads the cents of an amount that is not negative, rounded to the cent as
  \<open>toFixed\<close> prints it, and of a negative amount of whole dollars. Of another negative
  amount it negates the dollars and adds the cents.
\<close>

lemma toCents_exact:
  assumes "0 \<le> q \<or> q \<in> \<int>"
  shows "toCents (Num (Fin q)) = Fin \<lfloor>q * 100 + 1 / 2\<rfloor>"
proof (cases "q < 0")
  case False
  then show ?thesis by (simp add: toCents_Num_Fin)
next
  case True
  with assms obtain k where k: "q = of_int k" by (auto elim: Ints_cases)
  with True have neg: "k < 0" by simp
  have "\<lfloor>(of_int (- k * 100) :: rat) + 1 / 2\<rfloor> = - k * 100"
    and "\<lfloor>(of_int (k * 100) :: rat) + 1 / 2\<rfloor> = k * 100"
    by (rule floor_unique; simp)+
  moreover have "\<bar>q\<bar> * 100 + 1 / 2 = of_int (- k * 100) + 1 / 2"
    and "q * 100 + 1 / 2 = of_int (k * 100) + 1 / 2"
    using neg k by simp_all
  ultimately have n: "\<lfloor>\<bar>q\<bar> * 100 + 1 / 2\<rfloor> = - k * 100"
    and m: "\<lfloor>q * 100 + 1 / 2\<rfloor> = k * 100"
    by simp_all
  show ?thesis unfolding toCents_Num_Fin n m using True by simp
qed

lemma toCents_negative:
  assumes "q < 0"
  shows "toCents (Num (Fin q)) =
     Fin (- \<lfloor>\<bar>q\<bar> * 100 + 1 / 2\<rfloor> + 2 * (\<lfloor>\<bar>q\<bar> * 100 + 1 / 2\<rfloor> mod 100))"
proof -
  let ?n = "\<lfloor>\<bar>q\<bar> * 100 + 1 / 2\<rfloor>"
  have "?n = ?n div 100 * 100 + ?n mod 100" by simp
  then have "- (?n div 100) * 100 + ?n mod 100 = - ?n + 2 * (?n mod 100)" by linarith
  with assms show ?thesis by (simp add: toCents_Num_Fin)
qed

text \<open>
  The two balance checks, once the accounts are accepted and the impact is computed, on
  the balance as the code computes it.
\<close>

lemma applyOne_balance:
  assumes ne: "fromAcct \<noteq> fandaAcct pol" "toAcct \<noteq> fandaAcct pol" "fromAcct \<noteq> toAcct"
    and to: "toAcct \<in> account ` set (without_summary base)"
    and row: "find_row fromAcct (without_summary base) = Some fromRow"
    and imp: "computeTransferImpact pol toAcct amt mode = Inr imp"
    and after: "fromAfter = num_sub (toCents (Num (proposed_budget fromRow))) (source_out imp)"
    and enc: "enc = toCents (Num (encumbrancesFor fromAcct snap))"
  shows "num_lt fromAfter enc \<Longrightarrow>
           applyOne pol base snap fromAcct toAcct amt mode = Inl (EncumbranceBreach fromAcct)"
    and "\<not> num_lt fromAfter enc \<Longrightarrow> num_lt fromAfter (Fin 0) \<Longrightarrow>
           applyOne pol base snap fromAcct toAcct amt mode = Inl (NegativeBalance fromAcct)"
    and "\<not> num_lt fromAfter enc \<Longrightarrow>
           applyOne pol base snap fromAcct toAcct amt mode \<noteq> Inl (EncumbranceBreach fromAcct)"
    and "\<not> num_lt fromAfter (Fin 0) \<Longrightarrow>
           applyOne pol base snap fromAcct toAcct amt mode \<noteq> Inl (NegativeBalance fromAcct)"
proof -
  obtain rows k where w: "workingRows (fandaAcct pol) base = (rows, k)"
    by (cases "workingRows (fandaAcct pol) base")
  from row have "fromAcct \<in> account ` set (without_summary base)"
    using find_row_None [of fromAcct "without_summary base"] by auto
  then obtain i where i: "find_pos fromAcct (without_summary base) = Some i"
    using find_pos_None [of fromAcct "without_summary base"] by auto
  then have i': "find_pos fromAcct rows = Some i"
    using ne w workingRows_find_other [of fromAcct "fandaAcct pol" base] by simp
  from to obtain j where j: "find_pos toAcct rows = Some j"
    using find_pos_None [of toAcct "without_summary base"] w ne
      workingRows_find_other [of toAcct "fandaAcct pol" base] by auto
  have r: "rows ! i = fromRow"
    using workingRows_nth_other [OF i, of "fandaAcct pol"] find_pos_Some [OF i] row w by simp
  note eq = applyOne_after_checks [OF ne w i' j imp, of snap]
  show "num_lt fromAfter enc \<Longrightarrow>
      applyOne pol base snap fromAcct toAcct amt mode = Inl (EncumbranceBreach fromAcct)"
    unfolding eq by (simp add: Let_def r after enc)
  show "\<not> num_lt fromAfter enc \<Longrightarrow> num_lt fromAfter (Fin 0) \<Longrightarrow>
      applyOne pol base snap fromAcct toAcct amt mode = Inl (NegativeBalance fromAcct)"
    unfolding eq by (simp add: Let_def r after enc)
  show "\<not> num_lt fromAfter enc \<Longrightarrow>
      applyOne pol base snap fromAcct toAcct amt mode \<noteq> Inl (EncumbranceBreach fromAcct)"
    unfolding eq by (simp add: Let_def r after enc)
  show "\<not> num_lt fromAfter (Fin 0) \<Longrightarrow>
      applyOne pol base snap fromAcct toAcct amt mode \<noteq> Inl (NegativeBalance fromAcct)"
    unfolding eq by (simp add: Let_def r after enc)
qed


subsection \<open>A source with a negative proposed budget\<close>

lemma overdrawn_without_summary: "without_summary overdrawnBudget = overdrawnBudget"
  by (simp add: without_summary_def overdrawnBudget_def)

lemma overdrawn_accounts:
  "account ` set overdrawnBudget = {''53800'', ''51110'', ''52000'', ''58960''}"
  by (simp add: overdrawnBudget_def)

lemma overdrawn_source_row: "find_row ''53800'' overdrawnBudget = Some (hd overdrawnBudget)"
  by (simp add: find_row_def overdrawnBudget_def)

lemma overdrawn_proposed: "proposed_budget (hd overdrawnBudget) = Fin (- 1 / 2)"
  by (simp add: overdrawnBudget_def)

lemma overdrawn_impact:
  "computeTransferImpact (Some mockRates) ''51110'' (Fin 50) BudgetTotal =
     Inr \<lparr>source_out = Fin 50, direct_to_dest = Fin 39, fa_added = Fin 11, eligible = True\<rparr>"
proof -
  have "divByOnePlus (Fin 50) (Fin (1242993497154257 / 4503599627370496)) = Fin 39"
    using double_one_276
    by (simp add: divByOnePlus_Fin double_at(1) [of 5] pow2_def round_even_def Let_def
        floor_numeral_fraction)
  then show ?thesis
    by (simp add: computeTransferImpact_def Let_def mock_eligible_salary mock_rate num_sub_def)
qed

text \<open>
  The source stands at -0.50 dollars and 50 cents are taken from it. \<open>toCents\<close> reads the
  -0.50 dollars as 50 cents, the balance that the code checks is zero, and with an
  encumbrance of zero both checks pass: the transfer is posted and the source is left at
  -1.00 dollars.
\<close>

lemma overdrawn_applyOne:
  assumes "toCents (Num (encumbrancesFor ''53800'' snap)) = Fin 0"
  shows "applyOne (Some mockRates) overdrawnBudget snap ''53800'' ''51110'' (Fin 50) BudgetTotal
     = Inr (overdrawnPosted, overdrawnLog)"
proof -
  have ne: "''53800'' \<noteq> fandaAcct (Some mockRates)" "''51110'' \<noteq> fandaAcct (Some mockRates)"
    "''53800'' \<noteq> ''51110''"
    by (simp_all add: mock_fanda)
  have w: "workingRows (fandaAcct (Some mockRates)) overdrawnBudget
      = (overdrawnBudget, Suc (Suc (Suc 0)))"
    by (simp add: mock_fanda workingRows_def Let_def overdrawn_without_summary)
       (simp add: overdrawnBudget_def)
  have pos: "find_pos ''53800'' overdrawnBudget = Some 0"
    "find_pos ''51110'' overdrawnBudget = Some (Suc 0)"
    by (simp_all add: overdrawnBudget_def)
  note eq = applyOne_after_checks [OF ne w pos overdrawn_impact, of snap]
  have bal: "toCents (Num (proposed_budget (overdrawnBudget ! 0))) = Fin 50"
    by (simp add: overdrawnBudget_def toCents_Num_Fin floor_numeral_fraction)
  have tot: "baselineSum overdrawnBudget = Fin 10000000"
    by (simp add: baselineSum_def overdrawn_without_summary sum_cents_def)
       (simp add: overdrawnBudget_def toCents_Num_Fin floor_numeral_fraction)
  show ?thesis
    unfolding eq Let_def baselineSum_posted
    by (simp add: assms bal tot strict_neq_def num_sub_def Number_of_fromCents)
       (simp add: overdrawnBudget_def overdrawnPosted_def overdrawnLog_def credit_def debit_def
          set_change_def num_sub_def)
qed




lemma mock_proposed: "proposed_budget (hd mockBudget) = Fin 50000"
  by (simp add: mockBudget_def)

subsection \<open>The order of the checks\<close>




subsection \<open>An account without an encumbrance\<close>

text \<open>
  Claim C10. A source account that has no row in the encumbrance snapshot, or whose first
  row there has no \<open>encumbrances\<close> field, has the encumbrance zero, and the negative-balance
  failure is never the one reported for it. Once the accounts are accepted and the impact
  is computed, such a transfer fails with the encumbrance breach exactly when the balance
  that the code computes is below zero. For a proposed budget \<open>p\<close> that is not negative
  this is the balance left on the source, \<open>n - source_out\<close> with \<open>n\<close> the cents of \<open>p\<close>, and
  the breach coincides with the negative balance. For a negative \<open>p\<close> the balance left is
  \<open>- n - source_out\<close> with \<open>n\<close> the cents of \<open>\<bar>p\<bar>\<close>, but the code computes
  \<open>- n + 2 * (n mod 100) - source_out\<close>: \<open>toCents\<close> negates the dollars and adds the cents,
  so that a source at -0.50 dollars gives 50 cents without a breach.
\<close>

theorem missing_encumbrance_is_zero:
  assumes "fromAcct \<notin> account ` set snap
           \<or> (\<exists>row. find_row fromAcct snap = Some row \<and> encumbrances row = None)"
  shows "encumbrancesFor fromAcct snap = Fin 0
   \<and> toCents (Num (encumbrancesFor fromAcct snap)) = Fin 0
   \<and> (fromAcct \<noteq> fandaAcct pol \<and> toAcct \<noteq> fandaAcct pol \<and> fromAcct \<noteq> toAcct
        \<and> toAcct \<in> account ` set (without_summary base)
        \<and> find_row fromAcct (without_summary base) = Some fromRow
        \<and> computeTransferImpact pol toAcct amt mode = Inr imp
        \<and> proposed_budget fromRow = Fin p \<and> source_out imp = Fin so \<longrightarrow>
        (applyOne pol base snap fromAcct toAcct amt mode = Inl (EncumbranceBreach fromAcct)
           \<longleftrightarrow> (if 0 \<le> p then \<lfloor>p * 100 + 1 / 2\<rfloor> - so < 0
                else - \<lfloor>\<bar>p\<bar> * 100 + 1 / 2\<rfloor> + 2 * (\<lfloor>\<bar>p\<bar> * 100 + 1 / 2\<rfloor> mod 100) - so < 0))
        \<and> applyOne pol base snap fromAcct toAcct amt mode \<noteq> Inl (NegativeBalance fromAcct))"
proof (intro conjI impI)
  show enc: "encumbrancesFor fromAcct snap = Fin 0"
    using assms by (auto simp add: encumbrancesFor_def find_row_None [symmetric])
  then show enc0: "toCents (Num (encumbrancesFor fromAcct snap)) = Fin 0"
    by (simp add: toCents_zero)
  assume a: "fromAcct \<noteq> fandaAcct pol \<and> toAcct \<noteq> fandaAcct pol \<and> fromAcct \<noteq> toAcct
        \<and> toAcct \<in> account ` set (without_summary base)
        \<and> find_row fromAcct (without_summary base) = Some fromRow
        \<and> computeTransferImpact pol toAcct amt mode = Inr imp
        \<and> proposed_budget fromRow = Fin p \<and> source_out imp = Fin so"
  define c where "c = (if 0 \<le> p then \<lfloor>p * 100 + 1 / 2\<rfloor>
      else - \<lfloor>\<bar>p\<bar> * 100 + 1 / 2\<rfloor> + 2 * (\<lfloor>\<bar>p\<bar> * 100 + 1 / 2\<rfloor> mod 100))"
  have "toCents (Num (proposed_budget fromRow)) = Fin c"
    using a toCents_exact [of p] toCents_negative [of p] by (simp add: c_def)
  then have after: "Fin (c - so)
      = num_sub (toCents (Num (proposed_budget fromRow))) (source_out imp)"
    using a by (simp add: num_sub_def)
  have e: "Fin 0 = toCents (Num (encumbrancesFor fromAcct snap))" using enc0 by simp
  from a have pre: "fromAcct \<noteq> fandaAcct pol" "toAcct \<noteq> fandaAcct pol"
    "fromAcct \<noteq> toAcct" "toAcct \<in> account ` set (without_summary base)"
    "find_row fromAcct (without_summary base) = Some fromRow"
    "computeTransferImpact pol toAcct amt mode = Inr imp"
    by simp_all
  note b = applyOne_balance [OF pre after e]
  have "applyOne pol base snap fromAcct toAcct amt mode = Inl (EncumbranceBreach fromAcct)
      \<longleftrightarrow> c - so < 0"
    using b(1,3) by auto
  then show "applyOne pol base snap fromAcct toAcct amt mode = Inl (EncumbranceBreach fromAcct)
      \<longleftrightarrow> (if 0 \<le> p then \<lfloor>p * 100 + 1 / 2\<rfloor> - so < 0
           else - \<lfloor>\<bar>p\<bar> * 100 + 1 / 2\<rfloor> + 2 * (\<lfloor>\<bar>p\<bar> * 100 + 1 / 2\<rfloor> mod 100) - so < 0)"
    by (simp add: c_def)
  show "applyOne pol base snap fromAcct toAcct amt mode \<noteq> Inl (NegativeBalance fromAcct)"
    using b(1,4) by (cases "c - so < 0") auto
qed

lemma summarised_source_row:
  "find_row ''53800'' summarisedBudget = Some (summarisedBudget ! Suc 0)"
  "encumbrances (summarisedBudget ! Suc 0) = None"
  by (simp_all add: find_row_def summarisedBudget_def)

theorem missing_encumbrance_is_zero_witness:
  "''53800'' \<notin> account ` set ([] :: BudgetRow list)
   \<and> encumbrancesFor ''53800'' [] = Fin 0
   \<and> find_row ''53800'' summarisedBudget = Some (summarisedBudget ! Suc 0)
   \<and> encumbrances (summarisedBudget ! Suc 0) = None
   \<and> encumbrancesFor ''53800'' summarisedBudget = Fin 0
   \<and> applyOne (Some mockRates) mockBudget [] ''53800'' ''51110'' (Fin 6000000) BudgetTotal
       = Inl (EncumbranceBreach ''53800'')
   \<and> applyOne (Some mockRates) mockBudget summarisedBudget ''53800'' ''51110'' (Fin 6000000)
       BudgetTotal = Inl (EncumbranceBreach ''53800'')
   \<and> applyOne (Some mockRates) mockBudget [] ''53800'' ''51110'' (Fin 100) BudgetTotal
       \<noteq> Inl (EncumbranceBreach ''53800'')
   \<and> proposed_budget (hd overdrawnBudget) = Fin (- 1 / 2)
   \<and> applyOne (Some mockRates) overdrawnBudget [] ''53800'' ''51110'' (Fin 50) BudgetTotal
       \<noteq> Inl (EncumbranceBreach ''53800'')
   \<and> applyOne (Some mockRates) overdrawnBudget [] ''53800'' ''51110'' (Fin 50) BudgetTotal
       = Inr (overdrawnPosted, overdrawnLog)
   \<and> applyOne (Some mockRates) overdrawnBudget summarisedBudget ''53800'' ''51110'' (Fin 50)
       BudgetTotal = Inr (overdrawnPosted, overdrawnLog)"
  using
    missing_encumbrance_is_zero [where fromAcct = "''53800''" and snap = "[]"
      and pol = "Some mockRates" and toAcct = "''51110''" and base = mockBudget
      and fromRow = "hd mockBudget" and amt = "Fin 6000000" and mode = BudgetTotal
      and imp = "\<lparr>source_out = Fin 6000000, direct_to_dest = Fin 4702194,
        fa_added = Fin 1297806, eligible = True\<rparr>" and p = 50000 and so = 6000000]
    missing_encumbrance_is_zero [where fromAcct = "''53800''" and snap = summarisedBudget
      and pol = "Some mockRates" and toAcct = "''51110''" and base = mockBudget
      and fromRow = "hd mockBudget" and amt = "Fin 6000000" and mode = BudgetTotal
      and imp = "\<lparr>source_out = Fin 6000000, direct_to_dest = Fin 4702194,
        fa_added = Fin 1297806, eligible = True\<rparr>" and p = 50000 and so = 6000000]
    missing_encumbrance_is_zero [where fromAcct = "''53800''" and snap = "[]"
      and pol = "Some mockRates" and toAcct = "''51110''" and base = mockBudget
      and fromRow = "hd mockBudget" and amt = "Fin 100" and mode = BudgetTotal
      and imp = "\<lparr>source_out = Fin 100, direct_to_dest = Fin 78, fa_added = Fin 22,
        eligible = True\<rparr>" and p = 50000 and so = 100]
    missing_encumbrance_is_zero [where fromAcct = "''53800''" and snap = "[]"
      and pol = "Some mockRates" and toAcct = "''51110''" and base = overdrawnBudget
      and fromRow = "hd overdrawnBudget" and amt = "Fin 50" and mode = BudgetTotal
      and imp = "\<lparr>source_out = Fin 50, direct_to_dest = Fin 39, fa_added = Fin 11,
        eligible = True\<rparr>" and p = "- 1 / 2" and so = 50]
    overdrawn_applyOne [of "[]"] overdrawn_applyOne [of summarisedBudget]
  by (simp add: mock_without_summary mock_fanda mock_impact mock_impact_small mock_accounts
      mock_source_row mock_proposed summarised_source_row overdrawn_without_summary
      overdrawn_accounts overdrawn_source_row overdrawn_proposed overdrawn_impact
      floor_numeral_fraction)

section \<open>Properties of the ledger on a store\<close>

lemma untouched_refl: "untouched s s"
  by (simp add: untouched_def)

lemma untouched_length:
  assumes "untouched s s'"
  shows "length (objs s) \<le> length (objs s')" and "length (arrs s) \<le> length (arrs s')"
proof -
  from assms have "length (take (length (objs s)) (objs s')) = length (objs s)"
    and "length (take (length (arrs s)) (arrs s')) = length (arrs s)"
    by (simp_all add: untouched_def)
  then show "length (objs s) \<le> length (objs s')" and "length (arrs s) \<le> length (arrs s')"
    by simp_all
qed

lemma take_take_le: "n \<le> m \<Longrightarrow> take n xs = take n (take m xs)"
  by (simp add: min_def)

lemma untouched_trans:
  assumes "untouched s s1" and "untouched s1 s2"
  shows "untouched s s2"
proof -
  note l = untouched_length [OF assms(1)]
  from assms have "take (length (objs s)) (objs s2) = objs s"
    using take_take_le [OF l(1), of "objs s2"] by (simp add: untouched_def)
  moreover from assms have "take (length (arrs s)) (arrs s2) = arrs s"
    using take_take_le [OF l(2), of "arrs s2"] by (simp add: untouched_def)
  moreover from assms have "items s2 = items s"
    by (simp add: untouched_def)
  ultimately show ?thesis by (simp add: untouched_def)
qed

text \<open>Allocation leaves the store untouched; so does a write to a newer address.\<close>

lemma untouched_new_obj: "untouched s0 s \<Longrightarrow> untouched s0 (snd (new_obj r s))"
  using untouched_length [of s0 s] by (simp add: untouched_def new_obj_def)

lemma untouched_new_arr: "untouched s0 s \<Longrightarrow> untouched s0 (snd (new_arr ps s))"
  using untouched_length [of s0 s] by (simp add: untouched_def new_arr_def)

lemma untouched_set_proposed:
  "untouched s0 s \<Longrightarrow> length (objs s0) \<le> p \<Longrightarrow> untouched s0 (set_proposed p v s)"
  by (simp add: untouched_def set_proposed_def)

lemma untouched_set_change_at:
  "untouched s0 s \<Longrightarrow> length (objs s0) \<le> p \<Longrightarrow> untouched s0 (set_change_at p s)"
  by (simp add: untouched_def set_change_at_def)

lemma untouched_push:
  "untouched s0 s \<Longrightarrow> length (arrs s0) \<le> a \<Longrightarrow> untouched s0 (push p a s)"
  by (simp add: untouched_def push_def)

lemma arrs_set_proposed: "arrs (set_proposed p v s) = arrs s"
  by (simp add: set_proposed_def)

lemma arrs_set_change_at: "arrs (set_change_at p s) = arrs s"
  by (simp add: set_change_at_def)

lemma untouched_set_changes:
  "untouched s0 s \<Longrightarrow> (\<And>p. p \<in> set ps \<Longrightarrow> length (objs s0) \<le> p) \<Longrightarrow>
     untouched s0 (foldl (\<lambda>st p. set_change_at p st) s ps)"
  by (induction ps arbitrary: s) (simp_all add: untouched_set_change_at)

lemma arrs_set_changes: "arrs (foldl (\<lambda>st p. set_change_at p st) s ps) = arrs s"
  by (induction ps arbitrary: s) (simp_all add: arrs_set_change_at)

lemma copy_all_fresh:
  assumes "copy_all ps s = (qs, s')"
  shows "untouched s s'" and "arrs s' = arrs s" and "\<And>q. q \<in> set qs \<Longrightarrow> length (objs s) \<le> q"
    and "length (objs s) \<le> length (objs s')"
proof -
  have "untouched s s' \<and> arrs s' = arrs s \<and> (\<forall>q \<in> set qs. length (objs s) \<le> q)
      \<and> length (objs s) \<le> length (objs s')"
    using assms
  proof (induction ps arbitrary: s qs s')
    case Nil
    then show ?case by (simp add: untouched_refl)
  next
    case (Cons p ps)
    obtain q s1 where a: "new_obj (objs s ! p) s = (q, s1)"
      by (cases "new_obj (objs s ! p) s")
    obtain qs' s2 where c: "copy_all ps s1 = (qs', s2)"
      by (cases "copy_all ps s1")
    from Cons.prems a c have qs: "qs = q # qs'" and s': "s' = s2"
      by simp_all
    from a have q: "q = length (objs s)" and s1: "s1 = s\<lparr>objs := objs s @ [objs s ! p]\<rparr>"
      by (simp_all add: new_obj_def)
    have u1: "untouched s s1"
      using untouched_new_obj [OF untouched_refl, of s "objs s ! p"] a by simp
    note ih = Cons.IH [OF c]
    from ih u1 have "untouched s s2" by (blast intro: untouched_trans)
    moreover from ih s1 have "arrs s2 = arrs s" by simp
    moreover from ih s1 q qs have "\<forall>x \<in> set qs. length (objs s) \<le> x" by auto
    moreover from ih s1 have "length (objs s) \<le> length (objs s2)" by simp
    ultimately show ?case using s' by simp
  qed
  then show "untouched s s'" and "arrs s' = arrs s"
    and "\<And>q. q \<in> set qs \<Longrightarrow> length (objs s) \<le> q"
    and "length (objs s) \<le> length (objs s')"
    by simp_all
qed

lemma find_ref_member: "find_ref acct ps s = Some p \<Longrightarrow> p \<in> set ps"
  by (auto simp add: find_ref_def find_Some_iff)

text \<open>The working rows on a store are a new array of new objects.\<close>

lemma working_st_fresh:
  assumes "working_st fanda b s = ((rows, k), s')"
  shows "untouched s s'" and "length (arrs s) \<le> rows" and "rows < length (arrs s')"
    and "\<And>p. p \<in> set (arrs s' ! rows) \<Longrightarrow> length (objs s) \<le> p"
    and "k \<in> set (arrs s' ! rows)"
proof -
  let ?kept = "filter (\<lambda>p. account (objs s ! p) \<noteq> ''SUMMARY'') (arrs s ! b)"
  obtain filtered s1 where f: "new_arr ?kept s = (filtered, s1)"
    by (cases "new_arr ?kept s")
  obtain copies s2 where c: "copy_all (arrs s1 ! filtered) s1 = (copies, s2)"
    by (cases "copy_all (arrs s1 ! filtered) s1")
  obtain rows' s3 where r: "new_arr copies s2 = (rows', s3)"
    by (cases "new_arr copies s2")
  from f have s1: "s1 = s\<lparr>arrs := arrs s @ [?kept]\<rparr>"
    by (simp add: new_arr_def)
  note cf = copy_all_fresh [OF c]
  from r have rows': "rows' = length (arrs s2)" and s3: "s3 = s2\<lparr>arrs := arrs s2 @ [copies]\<rparr>"
    by (simp_all add: new_arr_def)
  have u1: "untouched s s1"
    using untouched_new_arr [OF untouched_refl, of s ?kept] f by simp
  have u3: "untouched s s3"
    using untouched_new_arr [OF untouched_trans [OF u1 cf(1)], of copies] r by simp
  have len: "length (arrs s) \<le> rows'"
    using rows' cf(2) s1 by simp
  have row3: "arrs s3 ! rows' = copies"
    using rows' s3 by simp
  have fresh: "\<And>p. p \<in> set copies \<Longrightarrow> length (objs s) \<le> p"
    using cf(3) s1 by simp
  have obj3: "length (objs s) \<le> length (objs s3)"
    using cf(4) s1 s3 by simp
  have "untouched s s' \<and> length (arrs s) \<le> rows \<and> rows < length (arrs s')
      \<and> (\<forall>p \<in> set (arrs s' ! rows). length (objs s) \<le> p) \<and> k \<in> set (arrs s' ! rows)"
  proof (cases "find_ref fanda (arrs s3 ! rows') s3")
    case (Some x)
    with assms f c r have e: "rows = rows'" "k = x" "s' = s3"
      by (auto simp add: working_st_def Let_def)
    from e u3 len rows' s3 row3 fresh find_ref_member [OF Some] show ?thesis
      by simp
  next
    case None
    obtain q s4 where n: "new_obj (newFandaRow fanda) s3 = (q, s4)"
      by (cases "new_obj (newFandaRow fanda) s3")
    with None assms f c r have e: "rows = rows'" "k = q" "s' = push q rows' s4"
      by (auto simp add: working_st_def Let_def)
    from n have q: "q = length (objs s3)" and s4: "s4 = s3\<lparr>objs := objs s3 @ [newFandaRow fanda]\<rparr>"
      by (simp_all add: new_obj_def)
    have u4: "untouched s s4"
      using untouched_new_obj [OF u3, of "newFandaRow fanda"] n by simp
    have row': "arrs s' ! rows = copies @ [q]"
      using e rows' s3 s4 by (simp add: push_def)
    have "untouched s s'"
      using e untouched_push [OF u4 len] by simp
    moreover have "rows < length (arrs s')"
      using e rows' s3 s4 by (simp add: push_def)
    moreover have "\<forall>p \<in> set (arrs s' ! rows). length (objs s) \<le> p"
      using row' fresh q obj3 by auto
    ultimately show ?thesis
      using e len row' by simp
  qed
  then show "untouched s s'" and "length (arrs s) \<le> rows" and "rows < length (arrs s')"
    and "\<And>p. p \<in> set (arrs s' ! rows) \<Longrightarrow> length (objs s) \<le> p"
    and "k \<in> set (arrs s' ! rows)"
    by simp_all
qed

lemma post_st_fresh:
  assumes "untouched s0 s" and "length (objs s0) \<le> fromRow" and "length (objs s0) \<le> toRow"
    and "length (objs s0) \<le> fandaRow"
    and "\<And>p. p \<in> set (arrs s ! rows) \<Longrightarrow> length (objs s0) \<le> p"
  shows "untouched s0 (post_st rows fromRow toRow fandaRow imp s)"
    and "arrs (post_st rows fromRow toRow fandaRow imp s) = arrs s"
  unfolding post_st_def Let_def
  using assms
  by (simp_all add: untouched_set_changes untouched_set_proposed arrs_set_changes
      arrs_set_proposed)

text \<open>\<open>applyOne\<close> writes to the new objects and the new array only.\<close>

lemma applyOne_st_fresh:
  assumes "applyOne_st pol b sn fromAcct toAcct amt mode s = (res, s')"
  shows "untouched s s'"
    and "\<And>rows logRow. res = Inr (rows, logRow) \<Longrightarrow>
           length (arrs s) \<le> rows \<and> rows < length (arrs s')
           \<and> (\<forall>p \<in> set (arrs s' ! rows). length (objs s) \<le> p)"
proof -
  have "untouched s s' \<and> (\<forall>rows logRow. res = Inr (rows, logRow) \<longrightarrow>
           length (arrs s) \<le> rows \<and> rows < length (arrs s')
           \<and> (\<forall>p \<in> set (arrs s' ! rows). length (objs s) \<le> p))"
  proof (cases "fromAcct = fandaAcct pol \<or> toAcct = fandaAcct pol")
    case True
    with assms show ?thesis
      by (auto simp add: applyOne_st_def Let_def untouched_refl)
  next
    case False
    obtain rows k s1 where w: "working_st (fandaAcct pol) b s = ((rows, k), s1)"
      by (cases "working_st (fandaAcct pol) b s") auto
    note wf = working_st_fresh [OF w]
    show ?thesis
    proof (cases "\<exists>i j imp. find_ref fromAcct (arrs s1 ! rows) s1 = Some i
        \<and> find_ref toAcct (arrs s1 ! rows) s1 = Some j \<and> fromAcct \<noteq> toAcct
        \<and> computeTransferImpact pol toAcct amt mode = Inr imp
        \<and> \<not> num_lt (num_sub (toCents (Num (proposed_budget (objs s1 ! i)))) (source_out imp))
                   (toCents (Num (encumbrancesFor fromAcct (deref s1 sn))))
        \<and> \<not> num_lt (num_sub (toCents (Num (proposed_budget (objs s1 ! i)))) (source_out imp))
                   (Fin 0)")
      case False
      with assms \<open>\<not> (fromAcct = fandaAcct pol \<or> toAcct = fandaAcct pol)\<close> w
      have "s' = s1" and "\<forall>rows logRow. res \<noteq> Inr (rows, logRow)"
        by (auto simp add: applyOne_st_def Let_def split: option.splits sum.splits if_splits)
      with wf(1) show ?thesis by simp
    next
      case True
      then obtain i j imp where i: "find_ref fromAcct (arrs s1 ! rows) s1 = Some i"
        and j: "find_ref toAcct (arrs s1 ! rows) s1 = Some j" and neq: "fromAcct \<noteq> toAcct"
        and imp: "computeTransferImpact pol toAcct amt mode = Inr imp"
        and ok: "\<not> num_lt (num_sub (toCents (Num (proposed_budget (objs s1 ! i)))) (source_out imp))
                   (toCents (Num (encumbrancesFor fromAcct (deref s1 sn))))"
          "\<not> num_lt (num_sub (toCents (Num (proposed_budget (objs s1 ! i)))) (source_out imp))
                   (Fin 0)"
        by blast
      let ?s2 = "post_st rows i j k imp s1"
      from assms \<open>\<not> (fromAcct = fandaAcct pol \<or> toAcct = fandaAcct pol)\<close> w i j neq imp ok
      have s': "s' = ?s2" and res: "\<And>r l. res = Inr (r, l) \<Longrightarrow> r = rows"
        by (auto simp add: applyOne_st_def Let_def split: if_splits)
      have fi: "length (objs s) \<le> i" and fj: "length (objs s) \<le> j" and fk: "length (objs s) \<le> k"
        using wf(4) find_ref_member [OF i] find_ref_member [OF j] wf(5) by simp_all
      note pf = post_st_fresh [OF wf(1) fi fj fk wf(4), of rows imp]
      from pf s' wf(2,3,4) res show ?thesis by auto
    qed
  qed
  then show "untouched s s'"
    and "\<And>rows logRow. res = Inr (rows, logRow) \<Longrightarrow>
           length (arrs s) \<le> rows \<and> rows < length (arrs s')
           \<and> (\<forall>p \<in> set (arrs s' ! rows). length (objs s) \<le> p)"
    by simp_all
qed

lemma project_loop_st_untouched:
  "project_loop_st pol sn working logs ts s = (res, s') \<Longrightarrow> untouched s s'"
proof (induction ts arbitrary: working logs s)
  case Nil
  then show ?case by (simp add: untouched_refl)
next
  case (Cons t ts)
  obtain r s1 where a: "applyOne_st pol working sn (item_from t) (item_to t) (amount_cents t)
      (item_mode t) s = (r, s1)"
    by (cases "applyOne_st pol working sn (item_from t) (item_to t) (amount_cents t)
      (item_mode t) s")
  note u1 = applyOne_st_fresh(1) [OF a]
  show ?case
  proof (cases r)
    case (Inl e)
    with Cons.prems a u1 show ?thesis by simp
  next
    case (Inr out)
    obtain rows logRow where "out = (rows, logRow)" by (cases out)
    with Inr Cons.prems a have "project_loop_st pol sn rows (logs @ [logRow]) ts s1 = (res, s')"
      by simp
    from Cons.IH [OF this] u1 show ?thesis by (rule untouched_trans [rotated])
  qed
qed

text \<open>What an untouched store says of an array that was valid.\<close>

lemma untouched_valid_array:
  assumes "untouched s s'" and "valid_array s a"
  shows "arrs s' ! a = arrs s ! a" and "deref s' a = deref s a"
proof -
  from assms have a: "a < length (arrs s)"
    and ps: "\<And>p. p \<in> set (arrs s ! a) \<Longrightarrow> p < length (objs s)"
    by (simp_all add: valid_array_def list_all_iff)
  from assms(1) have "arrs s ! a = take (length (arrs s)) (arrs s') ! a"
    by (simp add: untouched_def)
  with a show arr: "arrs s' ! a = arrs s ! a" by simp
  have "\<And>p. p \<in> set (arrs s ! a) \<Longrightarrow> objs s' ! p = objs s ! p"
  proof -
    fix p
    assume "p \<in> set (arrs s ! a)"
    then have "p < length (objs s)" by (rule ps)
    moreover from assms(1) have "objs s ! p = take (length (objs s)) (objs s') ! p"
      by (simp add: untouched_def)
    ultimately show "objs s' ! p = objs s ! p" by simp
  qed
  with arr show "deref s' a = deref s a"
    by (simp add: deref_def)
qed

text \<open>
  Claim C8. Neither \<open>applyOne\<close> nor \<open>projectWithTransfers\<close> writes to anything it is given.
  After a call, whether it returns rows or fails, and wherever in a batch it fails, every
  object and every array that the store held before the call has the value it had: the
  array of the baseline rows and every field of every row in it, the array of the snapshot
  and its rows, and the array of the requests. The rows that \<open>applyOne\<close> returns are a new
  array of new objects, and all writes went there.
\<close>

theorem arguments_never_mutated:
  "(applyOne_st pol b sn fromAcct toAcct amt mode s = (res, s') \<longrightarrow>
      untouched s s'
      \<and> (valid_array s b \<longrightarrow> arrs s' ! b = arrs s ! b \<and> deref s' b = deref s b)
      \<and> (valid_array s sn \<longrightarrow> arrs s' ! sn = arrs s ! sn \<and> deref s' sn = deref s sn)
      \<and> (\<forall>rows logRow. res = Inr (rows, logRow) \<longrightarrow>
            length (arrs s) \<le> rows \<and> (\<forall>p \<in> set (arrs s' ! rows). length (objs s) \<le> p)))
   \<and> (projectWithTransfers_st pol b sn ta s = (res', s'') \<longrightarrow>
      untouched s s''
      \<and> (valid_array s b \<longrightarrow> arrs s'' ! b = arrs s ! b \<and> deref s'' b = deref s b)
      \<and> (valid_array s sn \<longrightarrow> arrs s'' ! sn = arrs s ! sn \<and> deref s'' sn = deref s sn)
      \<and> items s'' ! ta = items s ! ta)"
proof (intro conjI impI)
  assume a: "applyOne_st pol b sn fromAcct toAcct amt mode s = (res, s')"
  note f = applyOne_st_fresh [OF a]
  show u: "untouched s s'" by (rule f(1))
  show "\<forall>rows logRow. res = Inr (rows, logRow) \<longrightarrow>
            length (arrs s) \<le> rows \<and> (\<forall>p \<in> set (arrs s' ! rows). length (objs s) \<le> p)"
    using f(2) by blast
  show "arrs s' ! b = arrs s ! b" and "deref s' b = deref s b" if "valid_array s b"
    using untouched_valid_array [OF u that] by simp_all
  show "arrs s' ! sn = arrs s ! sn" and "deref s' sn = deref s sn" if "valid_array s sn"
    using untouched_valid_array [OF u that] by simp_all
next
  assume p: "projectWithTransfers_st pol b sn ta s = (res', s'')"
  then show u: "untouched s s''"
    by (simp add: projectWithTransfers_st_def project_loop_st_untouched)
  then show "items s'' ! ta = items s ! ta"
    by (simp add: untouched_def)
  show "arrs s'' ! b = arrs s ! b" and "deref s'' b = deref s b" if "valid_array s b"
    using untouched_valid_array [OF u that] by simp_all
  show "arrs s'' ! sn = arrs s ! sn" and "deref s'' sn = deref s sn" if "valid_array s sn"
    using untouched_valid_array [OF u that] by simp_all
qed

lemma mock_store_valid: "valid_array mockStore 0"
  by (simp add: valid_array_def mockStore_def mockBudget_def)

lemma mock_store_rows: "deref mockStore 0 = mockBudget"
  by (simp add: deref_def mockStore_def mockBudget_def)

theorem arguments_never_mutated_witness:
  "valid_array mockStore 0
   \<and> deref (snd (applyOne_st (Some mockRates) 0 0 ''53800'' ''52000'' (Fin 1000000)
                   DirectToDest mockStore)) 0 = mockBudget
   \<and> deref (snd (applyOne_st (Some mockRates) 0 0 ''53800'' ''52000'' (Fin 6000000)
                   DirectToDest mockStore)) 0 = mockBudget
   \<and> deref (snd (projectWithTransfers_st (Some mockRates) 0 0 0 mockStore)) 0 = mockBudget
   \<and> items (snd (projectWithTransfers_st (Some mockRates) 0 0 0 mockStore)) ! 0
       = [mockTransfer]"
  using
    arguments_never_mutated [of "Some mockRates" 0 0 "''53800''" "''52000''" "Fin 1000000"
      DirectToDest mockStore
      "fst (applyOne_st (Some mockRates) 0 0 ''53800'' ''52000'' (Fin 1000000) DirectToDest
              mockStore)"
      "snd (applyOne_st (Some mockRates) 0 0 ''53800'' ''52000'' (Fin 1000000) DirectToDest
              mockStore)"
      0
      "fst (projectWithTransfers_st (Some mockRates) 0 0 0 mockStore)"
      "snd (projectWithTransfers_st (Some mockRates) 0 0 0 mockStore)"]
    arguments_never_mutated [of "Some mockRates" 0 0 "''53800''" "''52000''" "Fin 6000000"
      DirectToDest mockStore
      "fst (applyOne_st (Some mockRates) 0 0 ''53800'' ''52000'' (Fin 6000000) DirectToDest
              mockStore)"
      "snd (applyOne_st (Some mockRates) 0 0 ''53800'' ''52000'' (Fin 6000000) DirectToDest
              mockStore)"
      0
      "fst (projectWithTransfers_st (Some mockRates) 0 0 0 mockStore)"
      "snd (projectWithTransfers_st (Some mockRates) 0 0 0 mockStore)"]
    mock_store_valid mock_store_rows
  by (simp add: mockStore_def)


section \<open>The ledger on a store computes the ledger on values\<close>

text \<open>
  The copies stand at the end of the store, in the order of the array that lists them:
  a position in the list of working rows is an offset from the first copy.
\<close>

lemma upt_block_Cons: "[n..<Suc (n + m)] = n # [Suc n..<Suc (n + m)]"
  by (simp add: upt_conv_Cons del: upt_Suc)

lemma map_nth_block: "map ((!) (pre @ rs)) [length pre..<length pre + length rs] = rs"
proof (induction rs arbitrary: pre)
  case Nil
  then show ?case by simp
next
  case (Cons r rs)
  have "map ((!) ((pre @ [r]) @ rs)) [length (pre @ [r])..<length (pre @ [r]) + length rs] = rs"
    by (rule Cons.IH)
  then show ?case
    by (simp add: upt_block_Cons del: upt_Suc)
qed

lemma filter_refs:
  "map ((!) os) (filter (\<lambda>p. account (os ! p) \<noteq> ''SUMMARY'') ps) = without_summary (map ((!) os) ps)"
  by (induction ps) (simp_all add: without_summary_def)

lemma copy_all_block:
  assumes "copy_all ps s = (qs, s')" and "\<And>p. p \<in> set ps \<Longrightarrow> p < length (objs s)"
  shows "qs = [length (objs s)..<length (objs s) + length ps]
    \<and> objs s' = objs s @ map ((!) (objs s)) ps \<and> arrs s' = arrs s \<and> items s' = items s"
  using assms
proof (induction ps arbitrary: s qs s')
  case Nil
  then show ?case by simp
next
  case (Cons p ps)
  let ?s1 = "s\<lparr>objs := objs s @ [objs s ! p]\<rparr>"
  obtain qs' s2 where c: "copy_all ps ?s1 = (qs', s2)"
    by (cases "copy_all ps ?s1")
  with Cons.prems(1) have qs: "qs = length (objs s) # qs'" and s': "s' = s2"
    by (simp_all add: new_obj_def)
  have valid: "\<And>x. x \<in> set ps \<Longrightarrow> x < length (objs ?s1)"
    using Cons.prems(2) by (simp add: less_Suc_eq)
  note ih = Cons.IH [OF c valid]
  have same: "map ((!) (objs s @ [objs s ! p])) ps = map ((!) (objs s)) ps"
    using Cons.prems(2) by (simp add: nth_append)
  from ih qs s' same show ?case
    by (simp add: upt_block_Cons del: upt_Suc)
qed

lemma find_ref_block:
  assumes "objs s = pre @ rs"
  shows "find_ref acct [length pre..<length pre + length rs] s
     = map_option (\<lambda>j. length pre + j) (find_pos acct rs)"
  using assms
proof (induction rs arbitrary: pre)
  case Nil
  then show ?case by (simp add: find_ref_def)
next
  case (Cons r rs)
  from Cons.prems have o: "objs s = (pre @ [r]) @ rs" by simp
  have here: "objs s ! length pre = r"
    using Cons.prems by simp
  have rest: "find_ref acct [Suc (length pre)..<Suc (length pre + length rs)] s
      = map_option (\<lambda>j. Suc (length pre) + j) (find_pos acct rs)"
    using Cons.IH [OF o] by (simp del: upt_Suc)
  show ?case
  proof (cases "account r = acct")
    case True
    with here show ?thesis
      by (simp add: find_ref_def upt_block_Cons del: upt_Suc)
  next
    case False
    with here rest show ?thesis
      by (cases "find_pos acct rs") (simp_all add: find_ref_def upt_block_Cons del: upt_Suc)
  qed
qed

text \<open>The working rows on a store are the working rows of the values.\<close>

lemma working_st_rows:
  assumes "working_st fanda b s = ((rows, k), s')" and "valid_array s b"
    and "workingRows fanda (deref s b) = (rs, i)"
  shows "objs s' = objs s @ rs"
    and "arrs s' ! rows = [length (objs s)..<length (objs s) + length rs]"
    and "k = length (objs s) + i"
proof -
  let ?n = "length (objs s)"
  let ?kept = "filter (\<lambda>p. account (objs s ! p) \<noteq> ''SUMMARY'') (arrs s ! b)"
  let ?W = "without_summary (deref s b)"
  let ?s1 = "s\<lparr>arrs := arrs s @ [?kept]\<rparr>"
  obtain copies s2 where c: "copy_all ?kept ?s1 = (copies, s2)"
    by (cases "copy_all ?kept ?s1")
  let ?s3 = "s2\<lparr>arrs := arrs s2 @ [copies]\<rparr>"
  have valid: "\<And>p. p \<in> set ?kept \<Longrightarrow> p < length (objs ?s1)"
    using assms(2) by (simp add: valid_array_def list_all_iff)
  have W: "map ((!) (objs s)) ?kept = ?W"
    using filter_refs [of "objs s" "arrs s ! b"] by (simp add: deref_def)
  have "length (map ((!) (objs s)) ?kept) = length ?W"
    by (simp only: W)
  then have lenW: "length ?kept = length ?W"
    by simp
  from copy_all_block [OF c valid] W lenW
  have copies: "copies = [?n..<?n + length ?W]" and o2: "objs s2 = objs s @ ?W"
    and a2: "arrs s2 = arrs s @ [?kept]"
    by simp_all
  have o3: "objs ?s3 = objs s @ ?W" using o2 by simp
  have r3: "arrs ?s3 ! length (arrs s2) = copies" by simp
  have "find_ref fanda [?n..<?n + length ?W] ?s3
      = map_option (\<lambda>j. ?n + j) (find_pos fanda ?W)"
    by (rule find_ref_block [OF o3])
  then have f: "find_ref fanda copies ?s3 = map_option (\<lambda>j. ?n + j) (find_pos fanda ?W)"
    using copies by simp
  have w: "working_st fanda b s =
      (case find_ref fanda copies ?s3 of
         Some fandaRow \<Rightarrow> ((length (arrs s2), fandaRow), ?s3)
       | None \<Rightarrow> ((length (arrs s2), length (objs ?s3)),
           push (length (objs ?s3)) (length (arrs s2))
             (?s3\<lparr>objs := objs ?s3 @ [newFandaRow fanda]\<rparr>)))"
    using c by (simp add: working_st_def Let_def new_arr_def new_obj_def split: option.splits)
  have "objs s' = objs s @ rs \<and> arrs s' ! rows = [?n..<?n + length rs] \<and> k = ?n + i"
  proof (cases "find_pos fanda ?W")
    case None
    with assms(3) have rs: "rs = ?W @ [newFandaRow fanda]" and i: "i = length ?W"
      by (simp_all add: workingRows_def Let_def)
    from None f w assms(1) have "rows = length (arrs s2)" and "k = length (objs ?s3)"
      and "s' = push (length (objs ?s3)) (length (arrs s2))
             (?s3\<lparr>objs := objs ?s3 @ [newFandaRow fanda]\<rparr>)"
      by auto
    with rs i o3 copies show ?thesis
      by (simp add: push_def)
  next
    case (Some x)
    with assms(3) have rs: "rs = ?W" and i: "i = x"
      by (simp_all add: workingRows_def Let_def)
    from Some f w assms(1) have "rows = length (arrs s2)" and "k = ?n + x" and "s' = ?s3"
      by auto
    with rs i o3 copies show ?thesis
      by simp
  qed
  then show "objs s' = objs s @ rs"
    and "arrs s' ! rows = [length (objs s)..<length (objs s) + length rs]"
    and "k = length (objs s) + i"
    by simp_all
qed

text \<open>Writes to the copies are updates of the list of working rows.\<close>

lemma set_proposed_block:
  assumes "objs s = pre @ rs" and "i < length rs"
  shows "objs (set_proposed (length pre + i) v s) = pre @ rs[i := (rs ! i)\<lparr>proposed_budget := v\<rparr>]"
  using assms by (simp add: set_proposed_def list_update_append)

lemma set_changes_block:
  assumes "objs s = pre @ dn @ todo"
  shows "objs (foldl (\<lambda>st p. set_change_at p st) s
           [length pre + length dn..<length pre + length dn + length todo])
     = pre @ dn @ map set_change todo"
  using assms
proof (induction todo arbitrary: s dn)
  case Nil
  then show ?case by simp
next
  case (Cons r todo)
  let ?s1 = "set_change_at (length pre + length dn) s"
  have o1: "objs ?s1 = pre @ (dn @ [set_change r]) @ todo"
    using Cons.prems by (simp add: set_change_at_def list_update_append)
  from Cons.IH [OF o1] show ?case
    by (simp add: upt_block_Cons del: upt_Suc)
qed

lemma post_st_block:
  assumes "objs s = pre @ rs" and "arrs s ! rows = [length pre..<length pre + length rs]"
    and "i < length rs" and "j < length rs" and "k < length rs"
  shows "objs (post_st rows (length pre + i) (length pre + j) (length pre + k) imp s)
     = pre @ map set_change
         (credit k (Number_of (fromCents (fa_added imp)))
           (credit j (Number_of (fromCents (direct_to_dest imp)))
             (debit i (Number_of (fromCents (source_out imp))) rs)))"
    and "arrs (post_st rows (length pre + i) (length pre + j) (length pre + k) imp s) = arrs s"
    and "items (post_st rows (length pre + i) (length pre + j) (length pre + k) imp s) = items s"
proof -
  let ?a = "Number_of (fromCents (source_out imp))"
  let ?b = "Number_of (fromCents (direct_to_dest imp))"
  let ?c = "Number_of (fromCents (fa_added imp))"
  let ?s1 = "set_proposed (length pre + i) (num_sub (proposed_budget (objs s ! (length pre + i))) ?a) s"
  have o1: "objs ?s1 = pre @ debit i ?a rs"
    using set_proposed_block [OF assms(1,3)] assms(1) by (simp add: debit_def)
  let ?s2 = "set_proposed (length pre + j)
      (num_add (proposed_budget (objs ?s1 ! (length pre + j))) ?b) ?s1"
  have o2: "objs ?s2 = pre @ credit j ?b (debit i ?a rs)"
    using set_proposed_block [OF o1, of j] assms(4) o1 by (simp add: credit_def debit_keeps)
  let ?s3 = "set_proposed (length pre + k)
      (num_add (proposed_budget (objs ?s2 ! (length pre + k))) ?c) ?s2"
  have o3: "objs ?s3 = pre @ [] @ credit k ?c (credit j ?b (debit i ?a rs))"
    using set_proposed_block [OF o2, of k] assms(5) o2
    by (simp add: credit_def debit_keeps credit_keeps)
  have a3: "arrs ?s3 ! rows = [length pre + length ([] :: BudgetRow list)..<
      length pre + length ([] :: BudgetRow list)
        + length (credit k ?c (credit j ?b (debit i ?a rs)))]"
    using assms(2) by (simp add: arrs_set_proposed credit_keeps debit_keeps)
  have p: "post_st rows (length pre + i) (length pre + j) (length pre + k) imp s
      = foldl (\<lambda>st p. set_change_at p st) ?s3 (arrs ?s3 ! rows)"
    by (simp add: post_st_def Let_def)
  show "objs (post_st rows (length pre + i) (length pre + j) (length pre + k) imp s)
     = pre @ map set_change (credit k ?c (credit j ?b (debit i ?a rs)))"
    unfolding p a3 using set_changes_block [OF o3] by simp
  show "arrs (post_st rows (length pre + i) (length pre + j) (length pre + k) imp s) = arrs s"
    unfolding p by (simp add: arrs_set_changes arrs_set_proposed)
  have it: "\<And>ps st. items (foldl (\<lambda>st p. set_change_at p st) st ps) = items st"
  proof -
    fix ps st
    show "items (foldl (\<lambda>st p. set_change_at p st) st ps) = items st"
      by (induction ps arbitrary: st) (simp_all add: set_change_at_def)
  qed
  show "items (post_st rows (length pre + i) (length pre + j) (length pre + k) imp s) = items s"
    unfolding p by (simp add: it set_proposed_def)
qed

lemma deref_block:
  assumes "objs s = pre @ rs" and "arrs s ! a = [length pre..<length pre + length rs]"
  shows "deref s a = rs"
  using assms map_nth_block [of pre rs] by (simp add: deref_def)

text \<open>
  On a store that holds its arguments, \<open>applyOne\<close> on the store fails as \<open>applyOne\<close> on
  the values of the arguments fails, and returns an array of the rows that it returns.
\<close>

lemma applyOne_st_refines:
  assumes "valid_array s b" and "valid_array s sn"
    and "applyOne_st pol b sn fromAcct toAcct amt mode s = (res, s')"
  shows "applyOne pol (deref s b) (deref s sn) fromAcct toAcct amt mode =
     (case res of Inl e \<Rightarrow> Inl e | Inr (rows, logRow) \<Rightarrow> Inr (deref s' rows, logRow))
     \<and> (case res of Inl e \<Rightarrow> True | Inr (rows, logRow) \<Rightarrow> valid_array s' rows)"
proof (cases "fromAcct = fandaAcct pol \<or> toAcct = fandaAcct pol")
  case True
  with assms(3) show ?thesis
    by (auto simp add: applyOne_st_def applyOne_def Let_def)
next
  case False
  let ?n = "length (objs s)"
  obtain rows k s1 where w: "working_st (fandaAcct pol) b s = ((rows, k), s1)"
    by (cases "working_st (fandaAcct pol) b s") auto
  obtain rs i0 where wr: "workingRows (fandaAcct pol) (deref s b) = (rs, i0)"
    by (cases "workingRows (fandaAcct pol) (deref s b)")
  note blk = working_st_rows [OF w assms(1) wr]
  note u1 = working_st_fresh(1) [OF w]
  have sn1: "deref s1 sn = deref s sn"
    using untouched_valid_array(2) [OF u1 assms(2)] .
  have fr: "\<And>x. find_ref x (arrs s1 ! rows) s1 = map_option (\<lambda>j. ?n + j) (find_pos x rs)"
    unfolding blk(2) by (rule find_ref_block [OF blk(1)])
  have i0: "i0 < length rs"
    using workingRows_fanda [OF wr] by simp
  show ?thesis
  proof (cases "find_pos fromAcct rs")
    case None
    with False w wr fr assms(3) show ?thesis
      by (auto simp add: applyOne_st_def applyOne_def Let_def)
  next
    case (Some i)
    note i = Some
    show ?thesis
    proof (cases "find_pos toAcct rs")
      case None
      with False w wr fr i assms(3) show ?thesis
        by (auto simp add: applyOne_st_def applyOne_def Let_def)
    next
      case (Some j)
      note j = Some
      show ?thesis
      proof (cases "fromAcct = toAcct")
        case True
        with False w wr fr i j assms(3) show ?thesis
          by (auto simp add: applyOne_st_def applyOne_def Let_def)
      next
        case neq: False
        show ?thesis
        proof (cases "computeTransferImpact pol toAcct amt mode")
          case (Inl e)
          with False neq w wr fr i j assms(3) show ?thesis
            by (auto simp add: applyOne_st_def applyOne_def Let_def)
        next
          case (Inr imp)
          from False have ne: "fromAcct \<noteq> fandaAcct pol" "toAcct \<noteq> fandaAcct pol"
            by simp_all
          note pure = applyOne_after_checks [OF ne neq wr i j Inr, of "deref s sn"]
          have il: "i < length rs" and jl: "j < length rs"
            using find_pos_Some [OF i] find_pos_Some [OF j] by simp_all
          have src: "objs s1 ! (?n + i) = rs ! i"
            using blk(1) by simp
          let ?s2 = "post_st rows (?n + i) (?n + j) (?n + i0) imp s1"
          let ?posted = "map set_change
            (credit i0 (Number_of (fromCents (fa_added imp)))
              (credit j (Number_of (fromCents (direct_to_dest imp)))
                (debit i (Number_of (fromCents (source_out imp))) rs)))"
          note post = post_st_block [OF blk(1) blk(2) il jl i0, of imp]
          have len: "length ?posted = length rs"
            by (simp add: credit_keeps debit_keeps)
          have out: "deref ?s2 rows = ?posted"
            using post(1,2) blk(2) len by (intro deref_block) simp_all
          have st: "applyOne_st pol b sn fromAcct toAcct amt mode s =
             (let fromAfter = num_sub (toCents (Num (proposed_budget (rs ! i)))) (source_out imp)
              in if num_lt fromAfter (toCents (Num (encumbrancesFor fromAcct (deref s sn))))
                   then (Inl (EncumbranceBreach fromAcct), s1)
                 else if num_lt fromAfter (Fin 0) then (Inl (NegativeBalance fromAcct), s1)
                 else if strict_neq (baselineSum (deref ?s2 b)) (baselineSum (deref ?s2 rows))
                   then (Inl ReconciliationFailure, ?s2)
                 else (Inr (rows,
                         \<lparr>map_from = fromAcct, map_to = toAcct,
                          source_out_cents = source_out imp,
                          direct_to_dest_cents = direct_to_dest imp,
                          fa_added_to_fanda_cents = fa_added imp,
                          dest_mtdc_eligible = eligible imp, map_mode = mode\<rparr>), ?s2))"
            using False neq w fr i j Inr src sn1 blk(3)
            by (simp add: applyOne_st_def Let_def)
          show ?thesis
          proof (cases "num_lt (num_sub (toCents (Num (proposed_budget (rs ! i)))) (source_out imp))
                   (toCents (Num (encumbrancesFor fromAcct (deref s sn))))
               \<or> num_lt (num_sub (toCents (Num (proposed_budget (rs ! i)))) (source_out imp))
                   (Fin 0)")
            case True
            with assms(3) show ?thesis
              unfolding st pure by (auto simp add: Let_def split: if_splits)
          next
            case False
            with assms(3) st have s': "s' = ?s2"
              by (auto simp add: Let_def split: if_splits)
            have "untouched s s'"
              by (rule applyOne_st_fresh(1) [OF assms(3)])
            with s' have base: "deref ?s2 b = deref s b"
              using untouched_valid_array(2) [OF _ assms(1)] by simp
            have "rows < length (arrs ?s2)"
              using working_st_fresh(3) [OF w] post(2) by simp
            then have val: "valid_array ?s2 rows"
              using post(1,2) blk(2) len by (simp add: valid_array_def list_all_iff)
            from False assms(3) show ?thesis
              unfolding st pure by (auto simp add: Let_def out base val split: if_splits)
          qed
        qed
      qed
    qed
  qed
qed


lemma untouched_keeps_valid:
  assumes "untouched s s'" and "valid_array s a"
  shows "valid_array s' a"
proof -
  note l = untouched_length [OF assms(1)]
  from assms(2) have "a < length (arrs s)"
    and "\<And>p. p \<in> set (arrs s ! a) \<Longrightarrow> p < length (objs s)"
    by (simp_all add: valid_array_def list_all_iff)
  with l untouched_valid_array(1) [OF assms] show ?thesis
    by (fastforce simp add: valid_array_def list_all_iff)
qed

lemma project_loop_st_refines:
  assumes "valid_array s working" and "valid_array s sn"
    and "project_loop_st pol sn working logs ts s = (res, s')"
  shows "project_loop pol (deref s sn) (deref s working) logs ts =
     (case res of Inl e \<Rightarrow> Inl e | Inr (rows, lgs) \<Rightarrow> Inr (deref s' rows, lgs))"
  using assms
proof (induction ts arbitrary: s working logs)
  case Nil
  then show ?case by auto
next
  case (Cons t ts)
  obtain r s1 where a: "applyOne_st pol working sn (item_from t) (item_to t) (amount_cents t)
      (item_mode t) s = (r, s1)"
    by (cases "applyOne_st pol working sn (item_from t) (item_to t) (amount_cents t)
      (item_mode t) s")
  note ref = applyOne_st_refines [OF Cons.prems(1,2) a]
  note u1 = applyOne_st_fresh(1) [OF a]
  show ?case
  proof (cases r)
    case (Inl e)
    with Cons.prems(3) a ref show ?thesis by auto
  next
    case (Inr out)
    obtain rows logRow where out: "out = (rows, logRow)" by (cases out)
    with Inr Cons.prems(3) a
    have rest: "project_loop_st pol sn rows (logs @ [logRow]) ts s1 = (res, s')"
      by simp
    from ref Inr out have step: "applyOne pol (deref s working) (deref s sn) (item_from t)
        (item_to t) (amount_cents t) (item_mode t) = Inr (deref s1 rows, logRow)"
      and v: "valid_array s1 rows"
      by simp_all
    have vs: "valid_array s1 sn"
      by (rule untouched_keeps_valid [OF u1 Cons.prems(2)])
    have sn1: "deref s1 sn = deref s sn"
      by (rule untouched_valid_array(2) [OF u1 Cons.prems(2)])
    from Cons.IH [OF v vs rest] step sn1 show ?thesis by simp
  qed
qed

lemma projectWithTransfers_st_refines:
  assumes "valid_array s b" and "valid_array s sn"
    and "projectWithTransfers_st pol b sn ta s = (res, s')"
  shows "projectWithTransfers pol (deref s b) (deref s sn) (items s ! ta) =
     (case res of Inl e \<Rightarrow> Inl e | Inr (rows, lgs) \<Rightarrow> Inr (deref s' rows, lgs))"
  using project_loop_st_refines [OF assms(1,2), of pol "[]" "items s ! ta" res s'] assms(3)
  by (simp add: projectWithTransfers_st_def projectWithTransfers_def)


end
